theory Spec2Isabelle
  imports Complex_Main "HOL-Library.Word"
begin

section \<open>Persistent stores and the audit log (security_utils.py)\<close>

text \<open>
  Every store of the program is a JSON file that is read with the pattern
  \<^verbatim>\<open>if os.path.exists(f): try: data = json.load(...) except Exception: data = {}\<close>.
  A file is therefore absent, present but unreadable as JSON, or a document.
  Documents are modelled with the shape the code writes: a JSON object is a map.
\<close>

datatype 'a json_file = Missing | Malformed | Doc 'a

fun load_or :: "'a \<Rightarrow> 'a json_file \<Rightarrow> 'a" where
  "load_or d Missing = d"
| "load_or d Malformed = d"
| "load_or d (Doc x) = x"

datatype json_val = JStr string | JInt int | JBool bool

text \<open>
  One entry handed to the \<^verbatim>\<open>security\<close> logger by \<^verbatim>\<open>log_security_event\<close>. The entry's own
  \<^verbatim>\<open>timestamp\<close> field is a further reading of the wall clock and is left out.
\<close>

record audit_event =
  event_type :: string
  event_user :: string
  details :: "(string \<times> json_val) list"

type_synonym rate_doc = "string \<rightharpoonup> real list"
type_synonym usage_doc = "string \<rightharpoonup> (string \<rightharpoonup> int)"

text \<open>
  The state the security utilities work on: one rate-limit file per action
  (\<^verbatim>\<open>./rate_limits_{action}.json\<close>), the daily usage file, the lines of the audit log
  file, the number of file handlers attached to the \<^verbatim>\<open>security\<close> logger so far, and
  whether files can be opened for writing (the \<^verbatim>\<open>except\<close> branches around every
  \<^verbatim>\<open>json.dump\<close>).
\<close>

record sec_state =
  rate_files :: "string \<Rightarrow> rate_doc json_file"
  usage_file :: "usage_doc json_file"
  audit_log :: "audit_event list"
  handlers :: nat
  writable :: bool

text \<open>
  \<^verbatim>\<open>log_security_event\<close> calls \<^verbatim>\<open>setup_security_logging\<close> first, which attaches one more
  \<^verbatim>\<open>FileHandler\<close> to the same logger on every call; \<^verbatim>\<open>security_logger.info\<close> then writes
  the entry once per attached handler. Opening the log file for appending is taken to
  succeed.
\<close>

definition log_security_event :: "string \<Rightarrow> string \<Rightarrow> (string \<times> json_val) list \<Rightarrow> sec_state \<Rightarrow> sec_state" where
  "log_security_event ev_type user_email dets s =
     (let h = Suc (handlers s);
          log_entry = \<lparr>event_type = ev_type, event_user = user_email, details = dets\<rparr>
      in s\<lparr>handlers := h, audit_log := audit_log s @ replicate h log_entry\<rparr>)"

section \<open>Daily quota tracker\<close>

record limit_status =
  allowed :: bool
  remaining :: int
  used_today :: int
  reset_time :: string
  daily_limit :: int

text \<open>
  \<^verbatim>\<open>dict.get(key, default)\<close>.
\<close>

definition dict_get :: "('k \<rightharpoonup> 'v) \<Rightarrow> 'k \<Rightarrow> 'v \<Rightarrow> 'v" where
  "dict_get m k d = (case m k of None \<Rightarrow> d | Some v \<Rightarrow> v)"

text \<open>
  The local variable \<^verbatim>\<open>usage_data\<close> of \<^verbatim>\<open>check_daily_cover_letter_limit\<close> after the
  "clean old entries" step: a dictionary with the single key \<^verbatim>\<open>current_date\<close>.
\<close>

definition todays_view :: "usage_doc \<Rightarrow> string \<Rightarrow> usage_doc" where
  "todays_view usage_data current_date =
     (case usage_data current_date of
        None \<Rightarrow> [current_date \<mapsto> Map.empty]
      | Some _ \<Rightarrow> [current_date \<mapsto> dict_get usage_data current_date Map.empty])"

text \<open>
  \<^verbatim>\<open>check_daily_cover_letter_limit(user_email, daily_limit)\<close>. The two clock readings are
  arguments: \<^verbatim>\<open>current_date\<close> is \<^verbatim>\<open>datetime.now().strftime("%Y-%m-%d")\<close> and
  \<^verbatim>\<open>reset_iso\<close> is the ISO text of the midnight that follows. The function opens the usage
  file for reading only, so the state it returns is the state it was given.
\<close>

definition check_daily_cover_letter_limit ::
  "sec_state \<Rightarrow> string \<Rightarrow> string \<Rightarrow> string \<Rightarrow> int \<Rightarrow> limit_status \<times> sec_state" where
  "check_daily_cover_letter_limit s current_date reset_iso user_email dlimit =
     (let usage_data = load_or Map.empty (usage_file s);
          usage_data = todays_view usage_data current_date;
          today_usage = dict_get (dict_get usage_data current_date Map.empty) user_email 0;
          ok = (today_usage < dlimit);
          rem = max 0 (dlimit - today_usage)
      in (\<lparr>allowed = ok, remaining = rem, used_today = today_usage,
           reset_time = reset_iso, daily_limit = dlimit\<rparr>, s))"

text \<open>
  \<^verbatim>\<open>record_cover_letter_generation(user_email)\<close>: read, increment today's count of the
  user, write the whole document back and log the event; \<^verbatim>\<open>False\<close> and no change when
  the write raises.
\<close>

definition record_cover_letter_generation ::
  "sec_state \<Rightarrow> string \<Rightarrow> string \<Rightarrow> bool \<times> sec_state" where
  "record_cover_letter_generation s current_date user_email =
     (let usage_data = load_or Map.empty (usage_file s);
          usage_data = (case usage_data current_date of
                          None \<Rightarrow> usage_data(current_date \<mapsto> Map.empty)
                        | Some _ \<Rightarrow> usage_data);
          today = dict_get usage_data current_date Map.empty;
          current_count = dict_get today user_email 0;
          usage_data = usage_data(current_date \<mapsto> today(user_email \<mapsto> current_count + 1))
      in if writable s
         then (True, log_security_event ''COVER_LETTER_GENERATED'' user_email
                       [(''daily_count'', JInt (current_count + 1)), (''date'', JStr current_date)]
                       (s\<lparr>usage_file := Doc usage_data\<rparr>))
         else (False, s))"

text \<open>\<^verbatim>\<open>record_cover_letter_generation\<close> called \<open>k\<close> times in a row on one date.\<close>

fun record_times :: "nat \<Rightarrow> sec_state \<Rightarrow> string \<Rightarrow> string \<Rightarrow> sec_state" where
  "record_times 0 s current_date user_email = s"
| "record_times (Suc k) s current_date user_email =
     record_times k (snd (record_cover_letter_generation s current_date user_email)) current_date user_email"

text \<open>The count the usage file holds for a user under a date key (0 when there is none).\<close>

definition stored_count :: "sec_state \<Rightarrow> string \<Rightarrow> string \<Rightarrow> int" where
  "stored_count s d user_email =
     dict_get (dict_get (load_or Map.empty (usage_file s)) d Map.empty) user_email 0"

text \<open>The date keys of the persisted usage document.\<close>

definition stored_dates :: "sec_state \<Rightarrow> string set" where
  "stored_dates s = dom (load_or Map.empty (usage_file s))"


text \<open>A store that still holds the count of a previous day, used in concrete evaluations.\<close>

definition stale_store :: sec_state where
  "stale_store = \<lparr>rate_files = (\<lambda>_. Missing),
                    usage_file = Doc [''2025-01-14'' \<mapsto> [''a@x.com'' \<mapsto> 3]],
                    audit_log = [], handlers = 0, writable = True\<rparr>"


section \<open>Rate limiter\<close>

text \<open>
  \<^verbatim>\<open>check_rate_limit(user_email, action, max_requests, time_window_minutes)\<close>. The clock
  reading \<^verbatim>\<open>current_time.timestamp()\<close> is the argument \<open>now\<close>: epoch seconds, a Python
  float, modelled as a real number. The pruned list is written back only when the request
  is admitted; a failed write is logged and the answer is still \<^verbatim>\<open>True\<close>.
\<close>

definition check_rate_limit ::
  "sec_state \<Rightarrow> real \<Rightarrow> string \<Rightarrow> string \<Rightarrow> int \<Rightarrow> int \<Rightarrow> bool \<times> sec_state" where
  "check_rate_limit s now user_email action max_requests time_window_minutes =
     (let rate_data = load_or Map.empty (rate_files s action);
          user_requests = dict_get rate_data user_email [];
          cutoff_time = now - real_of_int (time_window_minutes * 60);
          user_requests = filter (\<lambda>req. req > cutoff_time) user_requests
      in if int (length user_requests) \<ge> max_requests
         then (False, log_security_event ''RATE_LIMIT_EXCEEDED'' user_email
                        [(''action'', JStr action),
                         (''request_count'', JInt (int (length user_requests))),
                         (''max_allowed'', JInt max_requests)] s)
         else (let user_requests = user_requests @ [now];
                   rate_data = rate_data(user_email \<mapsto> user_requests)
               in (True, if writable s
                         then s\<lparr>rate_files := (rate_files s)(action := Doc rate_data)\<rparr>
                         else s)))"

text \<open>The timestamps the rate-limit file of an action holds for a user.\<close>

definition recorded :: "sec_state \<Rightarrow> string \<Rightarrow> string \<Rightarrow> real list" where
  "recorded s action user_email = dict_get (load_or Map.empty (rate_files s action)) user_email []"

text \<open>
  A run of calls of \<^verbatim>\<open>check_rate_limit\<close> for one user and action at the given clock
  readings: whether every call was admitted, and the state after the last one.
\<close>

fun admit_all :: "sec_state \<Rightarrow> real list \<Rightarrow> string \<Rightarrow> string \<Rightarrow> int \<Rightarrow> int \<Rightarrow> bool \<times> sec_state" where
  "admit_all s [] user_email action max_requests mins = (True, s)"
| "admit_all s (t # ts) user_email action max_requests mins =
     (let r1 = check_rate_limit s t user_email action max_requests mins;
          r2 = admit_all (snd r1) ts user_email action max_requests mins
      in (fst r1 \<and> fst r2, snd r2))"

text \<open>The audit entry of a rejected request.\<close>

definition rate_limit_event :: "string \<Rightarrow> string \<Rightarrow> int \<Rightarrow> int \<Rightarrow> audit_event" where
  "rate_limit_event user_email action request_count max_requests =
     \<lparr>event_type = ''RATE_LIMIT_EXCEEDED'', event_user = user_email,
      details = [(''action'', JStr action), (''request_count'', JInt request_count),
                 (''max_allowed'', JInt max_requests)]\<rparr>"


section \<open>Invitation registry and session tokens (app.py)\<close>

subsection \<open>Strings, bytes and the library functions the code calls\<close>

text \<open>
  A Python \<^verbatim>\<open>str\<close> is modelled as a \<open>string\<close> whose characters are the code points below
  256. \<^verbatim>\<open>str.lower()\<close> on these moves the ASCII capitals and the Latin-1 capitals (all of
  \<open>0xC0..0xDE\<close> but the multiplication sign \<open>0xD7\<close>) up by 32.
\<close>

definition lower_char :: "char \<Rightarrow> char" where
  "lower_char c =
     (let n = (of_char c :: nat)
      in if (65 \<le> n \<and> n \<le> 90) \<or> (192 \<le> n \<and> n \<le> 222 \<and> n \<noteq> 215)
         then char_of (n + 32) else c)"

definition lower :: "string \<Rightarrow> string" where
  "lower s = map lower_char s"

type_synonym byte = "8 word"

text \<open>\<^verbatim>\<open>str.encode()\<close>: UTF-8, one byte below 128 and two bytes from 128 to 255.\<close>

definition encode_char :: "char \<Rightarrow> byte list" where
  "encode_char c =
     (let n = (of_char c :: nat)
      in if n < 128 then [of_nat n] else [of_nat (192 + n div 64), of_nat (128 + n mod 64)])"

definition encode :: "string \<Rightarrow> byte list" where
  "encode s = concat (map encode_char s)"

text \<open>\<^verbatim>\<open>hexdigest()\<close>: two lower-case hexadecimal digits per byte of the digest.\<close>

definition hex_digits :: string where
  "hex_digits = ''0123456789abcdef''"

definition hexchar :: "nat \<Rightarrow> char" where
  "hexchar n = hex_digits ! n"

definition hex_byte :: "byte \<Rightarrow> string" where
  "hex_byte b = [hexchar (unat b div 16), hexchar (unat b mod 16)]"

definition hexdigest :: "byte list \<Rightarrow> string" where
  "hexdigest bs = concat (map hex_byte bs)"

text \<open>
  A \<^verbatim>\<open>datetime\<close> is naive (no time zone; here the microseconds since the epoch of the
  local clock) or aware (with a UTC offset). \<^verbatim>\<open>datetime.now()\<close> is naive.
\<close>

datatype pydatetime = Naive int | Aware int int

datatype py_error = ValueError | TypeError | OverflowError

text \<open>
  The standard-library functions the token code calls and that are not part of the
  program: the HMAC-SHA-256 digest of a message under a key, \<^verbatim>\<open>datetime.isoformat\<close> and
  \<^verbatim>\<open>datetime.fromisoformat\<close> (\<open>None\<close> is its \<^verbatim>\<open>ValueError\<close>). They are parameters of the model.
\<close>

record pylib =
  hmac_sha256 :: "byte list \<Rightarrow> byte list \<Rightarrow> byte list"
  isoformat :: "int \<Rightarrow> string"
  fromisoformat :: "string \<Rightarrow> pydatetime option"

text \<open>
  \<^verbatim>\<open>s.split(sep, 1)\<close> for a one-character separator: the text before the first separator
  and the text after it, or the whole text alone when there is no separator.
\<close>

definition split_once :: "char \<Rightarrow> string \<Rightarrow> string list" where
  "split_once sep s =
     (if sep \<in> set s then [takeWhile (\<lambda>c. c \<noteq> sep) s, tl (dropWhile (\<lambda>c. c \<noteq> sep) s)]
      else [s])"

text \<open>
  \<^verbatim>\<open>hmac.compare_digest(a, b)\<close> on two \<^verbatim>\<open>str\<close> arguments: a \<^verbatim>\<open>TypeError\<close> unless both are
  ASCII only, else whether they are equal.
\<close>

definition is_ascii :: "string \<Rightarrow> bool" where
  "is_ascii s = list_all (\<lambda>c. (of_char c :: nat) < 128) s"

definition compare_digest :: "string \<Rightarrow> string \<Rightarrow> py_error + bool" where
  "compare_digest a b = (if is_ascii a \<and> is_ascii b then Inr (a = b) else Inl TypeError)"

text \<open>
  \<^verbatim>\<open>timedelta(hours=h)\<close> in microseconds; a \<^verbatim>\<open>timedelta\<close> holds at most 999999999 days in
  either direction and the constructor raises \<^verbatim>\<open>OverflowError\<close> beyond.
\<close>

definition timedelta_hours :: "int \<Rightarrow> py_error + int" where
  "timedelta_hours h =
     (if - 23999999976 \<le> h \<and> h \<le> 23999999999 then Inr (h * 3600000000) else Inl OverflowError)"

text \<open>\<^verbatim>\<open>datetime.now() - timestamp\<close>: a \<^verbatim>\<open>TypeError\<close> when the timestamp is aware.\<close>

fun elapsed_since :: "int \<Rightarrow> pydatetime \<Rightarrow> py_error + int" where
  "elapsed_since now (Naive t) = Inr (now - t)"
| "elapsed_since now (Aware t off) = Inl TypeError"

subsection \<open>Configuration and stores of the application\<close>

type_synonym user_info = "(string \<times> json_val) list"

text \<open>
  What the application reads: the invitation file (as far as it is a JSON object, the
  value under its key \<^verbatim>\<open>invited_users\<close>, when it has one; a document of another shape
  raises inside the \<^verbatim>\<open>try\<close> and counts as malformed), and the deployment secrets: the
  section \<^verbatim>\<open>invited_users\<close> (email to name), \<^verbatim>\<open>auth.invitation_secret\<close> and
  \<^verbatim>\<open>security.session_timeout_hours\<close>. \<open>None\<close> stands for a key that is absent or for
  secrets that cannot be read (the access raises and the \<^verbatim>\<open>except\<close> takes the default).
\<close>

record app_env =
  invited_file :: "(string \<times> user_info) list option json_file"
  secrets_invited :: "(string \<times> string) list option"
  invitation_secret :: "string option"
  session_timeout_hours :: "int option"

text \<open>
  A Python dictionary with its insertion order: \<^verbatim>\<open>d[k] = v\<close> replaces the value of a key
  that is present and appends the key otherwise; \<^verbatim>\<open>d.update(other)\<close> does so for every
  item of \<^verbatim>\<open>other\<close>.
\<close>

fun dict_set :: "('k \<times> 'v) list \<Rightarrow> 'k \<Rightarrow> 'v \<Rightarrow> ('k \<times> 'v) list" where
  "dict_set [] k v = [(k, v)]"
| "dict_set ((k', v') # d) k v = (if k' = k then (k, v) # d else (k', v') # dict_set d k v)"

definition dict_update :: "('k \<times> 'v) list \<Rightarrow> ('k \<times> 'v) list \<Rightarrow> ('k \<times> 'v) list" where
  "dict_update d other = fold (\<lambda>(k, v) acc. dict_set acc k v) other d"

definition load_invited_users :: "app_env \<Rightarrow> (string \<times> user_info) list" where
  "load_invited_users env =
     (let invited_users =
            (case invited_file env of
               Doc (Some users) \<Rightarrow> dict_update [] users
             | Doc None \<Rightarrow> dict_update [] []
             | _ \<Rightarrow> []);
          invited_users =
            (case secrets_invited env of
               Some secrets_users \<Rightarrow>
                 fold (\<lambda>(email, nm) acc.
                         dict_set acc email [(''name'', JStr nm), (''invited_date'', JStr ''2025-01-15''),
                                             (''status'', JStr ''active''), (''access_level'', JStr ''user'')])
                      secrets_users invited_users
             | None \<Rightarrow> invited_users)
      in invited_users)"

definition is_user_invited :: "app_env \<Rightarrow> string \<Rightarrow> bool" where
  "is_user_invited env email =
     (lower email \<in> set (map (\<lambda>user_email. lower user_email) (map fst (load_invited_users env))))"

text \<open>The keys of the invitation store: those of the file and those of the secrets.\<close>

definition store_keys :: "app_env \<Rightarrow> string set" where
  "store_keys env =
     (case invited_file env of Doc (Some users) \<Rightarrow> set (map fst users) | _ \<Rightarrow> {})
     \<union> (case secrets_invited env of Some secrets_users \<Rightarrow> set (map fst secrets_users) | None \<Rightarrow> {})"

subsection \<open>Session tokens\<close>

definition secret_key :: "app_env \<Rightarrow> string" where
  "secret_key env = (case invitation_secret env of Some k \<Rightarrow> k | None \<Rightarrow> ''default-secret-key'')"

definition timeout_hours :: "app_env \<Rightarrow> int" where
  "timeout_hours env = (case session_timeout_hours env of Some h \<Rightarrow> h | None \<Rightarrow> 24)"

text \<open>
  The hexadecimal HMAC of \<^verbatim>\<open>f"{email}:{timestamp}"\<close> under the configured secret, as both
  \<^verbatim>\<open>create_session_token\<close> and \<^verbatim>\<open>verify_session_token\<close> compute it.
\<close>

definition signature :: "pylib \<Rightarrow> app_env \<Rightarrow> string \<Rightarrow> string \<Rightarrow> string" where
  "signature lib env email timestamp_str =
     hexdigest (hmac_sha256 lib (encode (secret_key env)) (encode (email @ '':'' @ timestamp_str)))"

text \<open>\<^verbatim>\<open>create_session_token(email)\<close>; \<open>now\<close> is the reading of \<^verbatim>\<open>datetime.now()\<close>.\<close>

definition create_session_token :: "pylib \<Rightarrow> app_env \<Rightarrow> int \<Rightarrow> string \<Rightarrow> string" where
  "create_session_token lib env now email =
     (let timestamp = isoformat lib now;
          token = signature lib env email timestamp
      in token @ '':'' @ timestamp)"

text \<open>
  The body of the \<^verbatim>\<open>try\<close> block of \<^verbatim>\<open>verify_session_token\<close>, every exception it can raise
  being a left value: the unpacking of the split, the parse of the timestamp, the
  \<^verbatim>\<open>timedelta\<close>, the subtraction of the clock readings and the comparison of the digests.
\<close>

definition verify_body :: "pylib \<Rightarrow> app_env \<Rightarrow> int \<Rightarrow> string \<Rightarrow> string \<Rightarrow> py_error + bool" where
  "verify_body lib env now email token =
     (case split_once CHR '':'' token of
        [token_hash, timestamp_str] \<Rightarrow>
          (case fromisoformat lib timestamp_str of
             None \<Rightarrow> Inl ValueError
           | Some timestamp \<Rightarrow>
               (case elapsed_since now timestamp of
                  Inl e \<Rightarrow> Inl e
                | Inr age \<Rightarrow>
                    (case timedelta_hours (timeout_hours env) of
                       Inl e \<Rightarrow> Inl e
                     | Inr limit \<Rightarrow>
                         if age > limit then Inr False
                         else compare_digest token_hash (signature lib env email timestamp_str))))
      | _ \<Rightarrow> Inl ValueError)"

text \<open>\<^verbatim>\<open>verify_session_token(email, token)\<close>: the \<^verbatim>\<open>except Exception\<close> returns \<^verbatim>\<open>False\<close>.\<close>

definition verify_session_token :: "pylib \<Rightarrow> app_env \<Rightarrow> int \<Rightarrow> string \<Rightarrow> string \<Rightarrow> bool" where
  "verify_session_token lib env now email token =
     (case verify_body lib env now email token of Inl e \<Rightarrow> False | Inr b \<Rightarrow> b)"



text \<open>
  An instance of the library functions for concrete evaluations: the clock text and its
  parse are fixed at one instant (2025-01-15 10:30:00, and the same instant written with
  an offset), and the keyed hash is a stand-in that returns key and message.
\<close>

definition sample_lib :: pylib where
  "sample_lib = \<lparr>hmac_sha256 = (\<lambda>key msg. key @ msg),
                  isoformat = (\<lambda>t. ''2025-01-15T10:30:00''),
                  fromisoformat = (\<lambda>s. if s = ''2025-01-15T10:30:00'' then Some (Naive 1736937000000000)
                                        else if s = ''2025-01-15T10:30:00+00:00'' then Some (Aware 1736937000000000 0)
                                        else None)\<rparr>"


definition sample_env :: app_env where
  "sample_env = \<lparr>invited_file = Doc (Some [(''Alice@Example.com'', [(''name'', JStr ''Alice'')])]),
                  secrets_invited = None, invitation_secret = None, session_timeout_hours = None\<rparr>"


section \<open>Preference learning engine (app.py)\<close>

subsection \<open>Word-level diff: \<^verbatim>\<open>difflib.SequenceMatcher(None, a, b).get_opcodes()\<close>\<close>

text \<open>
  \<^verbatim>\<open>str.split()\<close> without argument: the maximal runs of characters that are not white
  space. The white space below code point 256 is \<open>9..13\<close>, \<open>28..32\<close>, \<open>133\<close> and \<open>160\<close>.
\<close>

definition is_space :: "char \<Rightarrow> bool" where
  "is_space c =
     (let n = (of_char c :: nat)
      in (9 \<le> n \<and> n \<le> 13) \<or> (28 \<le> n \<and> n \<le> 32) \<or> n = 133 \<or> n = 160)"

fun words_from :: "string \<Rightarrow> string \<Rightarrow> string list" where
  "words_from cur [] = (if cur = [] then [] else [cur])"
| "words_from cur (c # cs) =
     (if is_space c then (if cur = [] then words_from [] cs else cur # words_from [] cs)
      else words_from (cur @ [c]) cs)"

definition py_split :: "string \<Rightarrow> string list" where
  "py_split s = words_from [] s"

text \<open>
  The matcher is created with \<^verbatim>\<open>isjunk = None\<close> and the default \<^verbatim>\<open>autojunk = True\<close>, so no
  element is junk, and \<^verbatim>\<open>b2j\<close> maps an element to the increasing list of its positions in
  \<^verbatim>\<open>b\<close>, except that for \<^verbatim>\<open>len(b) >= 200\<close> the elements that occur more than
  \<^verbatim>\<open>len(b) // 100 + 1\<close> times are "popular" and have no entry.
\<close>

definition indices_of :: "'a \<Rightarrow> 'a list \<Rightarrow> nat list" where
  "indices_of x b = filter (\<lambda>j. b ! j = x) [0..<length b]"

definition popular :: "'a list \<Rightarrow> 'a \<Rightarrow> bool" where
  "popular b x = (length b \<ge> 200 \<and> length (indices_of x b) > length b div 100 + 1)"

definition b2j :: "'a list \<Rightarrow> 'a \<Rightarrow> nat list" where
  "b2j b x = (if popular b x then [] else indices_of x b)"

text \<open>
  The inner loop of \<^verbatim>\<open>find_longest_match\<close> for the row \<open>i\<close> of \<open>a\<close>. The state is
  \<^verbatim>\<open>(newj2len, besti, bestj, bestsize)\<close>; \<^verbatim>\<open>j2len.get(j-1, 0)\<close> has no entry for \<open>j = 0\<close>.
\<close>

definition match_step ::
  "(nat \<rightharpoonup> nat) \<Rightarrow> nat \<Rightarrow> nat \<Rightarrow> (nat \<rightharpoonup> nat) \<times> nat \<times> nat \<times> nat \<Rightarrow> (nat \<rightharpoonup> nat) \<times> nat \<times> nat \<times> nat" where
  "match_step j2len i j st =
     (case st of (newj2len, besti, bestj, bestsize) \<Rightarrow>
        (let k = (if j = 0 then 0 else dict_get j2len (j - 1) 0) + 1;
             newj2len = newj2len(j \<mapsto> k)
         in if k > bestsize then (newj2len, i + 1 - k, j + 1 - k, k)
            else (newj2len, besti, bestj, bestsize)))"

text \<open>
  The outer loop state is \<^verbatim>\<open>(j2len, besti, bestj, bestsize)\<close>. The positions of \<^verbatim>\<open>a[i]\<close>
  are visited in increasing order; those below \<^verbatim>\<open>blo\<close> are skipped (\<^verbatim>\<open>continue\<close>) and the
  first one from \<^verbatim>\<open>bhi\<close> on ends the row (\<^verbatim>\<open>break\<close>), which leaves the positions in
  \<^verbatim>\<open>[blo, bhi)\<close>.
\<close>

definition match_row ::
  "'a list \<Rightarrow> 'a list \<Rightarrow> nat \<Rightarrow> nat \<Rightarrow> nat \<Rightarrow> (nat \<rightharpoonup> nat) \<times> nat \<times> nat \<times> nat \<Rightarrow> (nat \<rightharpoonup> nat) \<times> nat \<times> nat \<times> nat" where
  "match_row a b blo bhi i st =
     (case st of (j2len, besti, bestj, bestsize) \<Rightarrow>
        fold (match_step j2len i)
             (filter (\<lambda>j. blo \<le> j \<and> j < bhi) (b2j b (a ! i)))
             (Map.empty, besti, bestj, bestsize))"

text \<open>
  The two loops that extend the match by equal elements on both sides. (The two further
  loops of the library extend it by junk elements, of which there are none.)
\<close>

function extend_left :: "'a list \<Rightarrow> 'a list \<Rightarrow> nat \<Rightarrow> nat \<Rightarrow> nat \<times> nat \<times> nat \<Rightarrow> nat \<times> nat \<times> nat" where
  "extend_left a b alo blo (besti, bestj, bestsize) =
     (if besti > alo \<and> bestj > blo \<and> a ! (besti - 1) = b ! (bestj - 1)
      then extend_left a b alo blo (besti - 1, bestj - 1, bestsize + 1)
      else (besti, bestj, bestsize))"
  by pat_completeness auto
termination
  by (relation "measure (\<lambda>(a, b, alo, blo, besti, bestj, bestsize). besti)") auto

function extend_right :: "'a list \<Rightarrow> 'a list \<Rightarrow> nat \<Rightarrow> nat \<Rightarrow> nat \<times> nat \<times> nat \<Rightarrow> nat \<times> nat \<times> nat" where
  "extend_right a b ahi bhi (besti, bestj, bestsize) =
     (if besti + bestsize < ahi \<and> bestj + bestsize < bhi
         \<and> a ! (besti + bestsize) = b ! (bestj + bestsize)
      then extend_right a b ahi bhi (besti, bestj, bestsize + 1)
      else (besti, bestj, bestsize))"
  by pat_completeness auto
termination
  by (relation "measure (\<lambda>(a, b, ahi, bhi, besti, bestj, bestsize). ahi - (besti + bestsize))") auto

declare extend_left.simps [simp del] extend_right.simps [simp del]

definition find_longest_match :: "'a list \<Rightarrow> 'a list \<Rightarrow> nat \<Rightarrow> nat \<Rightarrow> nat \<Rightarrow> nat \<Rightarrow> nat \<times> nat \<times> nat" where
  "find_longest_match a b alo ahi blo bhi =
     (case fold (match_row a b blo bhi) [alo..<ahi] (Map.empty, alo, blo, 0) of
        (j2len, besti, bestj, bestsize) \<Rightarrow>
          extend_right a b ahi bhi (extend_left a b alo blo (besti, bestj, bestsize)))"

text \<open>
  The work list of \<^verbatim>\<open>get_matching_blocks\<close>. The head of the list is the entry that
  \<^verbatim>\<open>queue.pop()\<close> takes: the one appended last.
\<close>

function matching_blocks_loop ::
  "'a list \<Rightarrow> 'a list \<Rightarrow> (nat \<times> nat \<times> nat \<times> nat) list \<Rightarrow> (nat \<times> nat \<times> nat) list \<Rightarrow> (nat \<times> nat \<times> nat) list" where
  "matching_blocks_loop a b [] blocks = blocks"
| "matching_blocks_loop a b ((alo, ahi, blo, bhi) # queue) blocks =
     (case find_longest_match a b alo ahi blo bhi of
        (i, j, k) \<Rightarrow>
          if k \<noteq> 0
          then matching_blocks_loop a b
                 ((if i + k < ahi \<and> j + k < bhi then [(i + k, ahi, j + k, bhi)] else [])
                  @ (if alo < i \<and> blo < j then [(alo, i, blo, j)] else []) @ queue)
                 (blocks @ [(i, j, k)])
          else matching_blocks_loop a b queue blocks)"
  by pat_completeness auto

text \<open>\<^verbatim>\<open>matching_blocks.sort()\<close>: triples in lexicographic order.\<close>

definition block_le :: "nat \<times> nat \<times> nat \<Rightarrow> nat \<times> nat \<times> nat \<Rightarrow> bool" where
  "block_le x y =
     (case x of (i1, j1, k1) \<Rightarrow> case y of (i2, j2, k2) \<Rightarrow>
        i1 < i2 \<or> (i1 = i2 \<and> (j1 < j2 \<or> (j1 = j2 \<and> k1 \<le> k2))))"

fun insert_block :: "nat \<times> nat \<times> nat \<Rightarrow> (nat \<times> nat \<times> nat) list \<Rightarrow> (nat \<times> nat \<times> nat) list" where
  "insert_block x [] = [x]"
| "insert_block x (y # ys) = (if block_le x y then x # y # ys else y # insert_block x ys)"

definition sort_blocks :: "(nat \<times> nat \<times> nat) list \<Rightarrow> (nat \<times> nat \<times> nat) list" where
  "sort_blocks xs = foldr insert_block xs []"

text \<open>The loop that merges adjacent blocks; the state is \<^verbatim>\<open>(i1, j1, k1, non_adjacent)\<close>.\<close>

definition collapse_step ::
  "nat \<times> nat \<times> nat \<Rightarrow> nat \<times> nat \<times> nat \<times> (nat \<times> nat \<times> nat) list \<Rightarrow> nat \<times> nat \<times> nat \<times> (nat \<times> nat \<times> nat) list" where
  "collapse_step blk st =
     (case blk of (i2, j2, k2) \<Rightarrow> case st of (i1, j1, k1, non_adjacent) \<Rightarrow>
        if i1 + k1 = i2 \<and> j1 + k1 = j2 then (i1, j1, k1 + k2, non_adjacent)
        else (i2, j2, k2, if k1 \<noteq> 0 then non_adjacent @ [(i1, j1, k1)] else non_adjacent))"

definition get_matching_blocks :: "'a list \<Rightarrow> 'a list \<Rightarrow> (nat \<times> nat \<times> nat) list" where
  "get_matching_blocks a b =
     (let la = length a; lb = length b;
          matching_blocks = sort_blocks (matching_blocks_loop a b [(0, la, 0, lb)] [])
      in case fold collapse_step matching_blocks (0, 0, 0, []) of
           (i1, j1, k1, non_adjacent) \<Rightarrow>
             (if k1 \<noteq> 0 then non_adjacent @ [(i1, j1, k1)] else non_adjacent) @ [(la, lb, 0)])"

datatype tag = Replace | Delete | Insert | Equal

type_synonym opcode = "tag \<times> nat \<times> nat \<times> nat \<times> nat"

definition opcode_step :: "nat \<times> nat \<times> nat \<Rightarrow> nat \<times> nat \<times> opcode list \<Rightarrow> nat \<times> nat \<times> opcode list" where
  "opcode_step blk st =
     (case blk of (ai, bj, sz) \<Rightarrow> case st of (i, j, answer) \<Rightarrow>
        (let answer = (if i < ai \<and> j < bj then answer @ [(Replace, i, ai, j, bj)]
                       else if i < ai then answer @ [(Delete, i, ai, j, bj)]
                       else if j < bj then answer @ [(Insert, i, ai, j, bj)]
                       else answer);
             i = ai + sz; j = bj + sz;
             answer = (if sz \<noteq> 0 then answer @ [(Equal, ai, i, bj, j)] else answer)
         in (i, j, answer)))"

definition get_opcodes :: "'a list \<Rightarrow> 'a list \<Rightarrow> opcode list" where
  "get_opcodes a b = (case fold opcode_step (get_matching_blocks a b) (0, 0, []) of (i, j, answer) \<Rightarrow> answer)"

subsection \<open>Edit analysis\<close>

text \<open>\<^verbatim>\<open>xs[i1:i2]\<close> for \<open>0 \<le> i1 \<le> i2\<close>, \<^verbatim>\<open>xs[-n:]\<close> for \<open>n > 0\<close>, and \<^verbatim>\<open>" ".join(ws)\<close>.\<close>

definition slice :: "'a list \<Rightarrow> nat \<Rightarrow> nat \<Rightarrow> 'a list" where
  "slice xs i1 i2 = take (i2 - i1) (drop i1 xs)"

definition last_n :: "nat \<Rightarrow> 'a list \<Rightarrow> 'a list" where
  "last_n n xs = drop (length xs - n) xs"

fun join_space :: "string list \<Rightarrow> string" where
  "join_space [] = []"
| "join_space [w] = w"
| "join_space (w # ws) = w @ '' '' @ join_space ws"

record edit_analysis =
  removals :: "string list"
  additions :: "string list"
  replacements :: "(string \<times> string) list"

definition analyze_step :: "string list \<Rightarrow> string list \<Rightarrow> opcode \<Rightarrow> edit_analysis \<Rightarrow> edit_analysis" where
  "analyze_step original_words edited_words oc ep =
     (case oc of (tg, i1, i2, j1, j2) \<Rightarrow>
        (case tg of
           Delete \<Rightarrow> ep\<lparr>removals := removals ep @ slice original_words i1 i2\<rparr>
         | Insert \<Rightarrow> ep\<lparr>additions := additions ep @ slice edited_words j1 j2\<rparr>
         | Replace \<Rightarrow> ep\<lparr>replacements := replacements ep @
                          [(join_space (slice original_words i1 i2), join_space (slice edited_words j1 j2))]\<rparr>
         | Equal \<Rightarrow> ep))"

definition analyze_user_edits :: "string \<Rightarrow> string \<Rightarrow> edit_analysis" where
  "analyze_user_edits original_text edited_text =
     (let original_words = py_split original_text;
          edited_words = py_split edited_text
      in fold (analyze_step original_words edited_words) (get_opcodes original_words edited_words)
           \<lparr>removals = [], additions = [], replacements = []\<rparr>)"


text \<open>
  The invariant of the two nested loops of \<^verbatim>\<open>find_longest_match\<close> that bounds the match
  found so far: every run length recorded for the current row is at most \<open>m\<close>, and the
  best match starts at or after \<open>alo\<close> and ends at or before \<open>hi\<close>.
\<close>

definition match_inv :: "nat \<Rightarrow> nat \<Rightarrow> nat \<Rightarrow> (nat \<rightharpoonup> nat) \<times> nat \<times> nat \<times> nat \<Rightarrow> bool" where
  "match_inv alo hi m st =
     (case st of (j2len, besti, bestj, bestsize) \<Rightarrow>
        (\<forall>j v. j2len j = Some v \<longrightarrow> v \<le> m) \<and> alo \<le> besti \<and> besti + bestsize \<le> hi)"

subsection \<open>The preference profile and its update\<close>

record writing_style =
  common_phrases :: "string list"
  sentence_structure_preferences :: "string list"
  tone_indicators :: "string list"

record edit_prefs =
  commonly_removed_words :: "string list"
  commonly_added_phrases :: "string list"
  formatting_preferences :: "string list"

record job_entry =
  entry_date :: string
  job_company :: string
  highlights_used :: "string list"
  session_id :: string

record preferences =
  pref_user_email :: string
  preferred_highlights :: "string list"
  writing_style_patterns :: writing_style
  edit_patterns :: edit_prefs
  job_application_history :: "job_entry list"
  last_updated :: string
  usage_count :: int

text \<open>
  The preference files, by file name, and whether they can be opened for writing.
  \<^verbatim>\<open>str.replace\<close> with a one-character pattern gives the file name of a user.
\<close>

record pref_state =
  pref_files :: "string \<Rightarrow> preferences json_file"
  pref_writable :: bool

definition replace_char :: "char \<Rightarrow> string \<Rightarrow> string \<Rightarrow> string" where
  "replace_char old new s = concat (map (\<lambda>c. if c = old then new else [c]) s)"

definition preferences_file :: "string \<Rightarrow> string" where
  "preferences_file email =
     ''./user_preferences/'' @ replace_char CHR ''.'' ''_'' (replace_char CHR ''@'' ''_at_'' email) @ ''.json''"

definition default_preferences :: "string \<Rightarrow> string \<Rightarrow> preferences" where
  "default_preferences email now_iso =
     \<lparr>pref_user_email = email,
      preferred_highlights = [],
      writing_style_patterns =
        \<lparr>common_phrases = [], sentence_structure_preferences = [], tone_indicators = []\<rparr>,
      edit_patterns =
        \<lparr>commonly_removed_words = [], commonly_added_phrases = [], formatting_preferences = []\<rparr>,
      job_application_history = [],
      last_updated = now_iso,
      usage_count = 0\<rparr>"

text \<open>\<^verbatim>\<open>load_user_preferences\<close>: the stored profile, or the default one.\<close>

definition load_user_preferences :: "pref_state \<Rightarrow> string \<Rightarrow> string \<Rightarrow> preferences" where
  "load_user_preferences st now_iso email =
     (case pref_files st (preferences_file email) of
        Doc p \<Rightarrow> p
      | _ \<Rightarrow> default_preferences email now_iso)"

text \<open>
  \<^verbatim>\<open>save_user_preferences\<close> stamps the dictionary it is given (the caller sees the stamp)
  and writes it; a failed write is logged and changes nothing else.
\<close>

definition save_user_preferences ::
  "pref_state \<Rightarrow> string \<Rightarrow> string \<Rightarrow> preferences \<Rightarrow> preferences \<times> pref_state" where
  "save_user_preferences st now_iso email p =
     (let p = p\<lparr>last_updated := now_iso\<rparr>
      in (p, if pref_writable st
             then st\<lparr>pref_files := (pref_files st)(preferences_file email := Doc p)\<rparr>
             else st))"

text \<open>The loop over \<^verbatim>\<open>highlights\<close>: each one is appended unless it is already in the list.\<close>

definition add_highlights :: "string list \<Rightarrow> string list \<Rightarrow> string list" where
  "add_highlights highlights current =
     fold (\<lambda>highlight acc. if highlight \<in> set acc then acc else acc @ [highlight]) highlights current"

text \<open>
  \<^verbatim>\<open>update_user_preferences_with_session_data\<close>. Its first argument stands for
  \<^verbatim>\<open>list(set(...))\<close>, whose order Python leaves open: some function from lists to lists.
  The clock text and the session identifier (\<^verbatim>\<open>st.session_state.user_id\<close>) are arguments.
\<close>

definition update_user_preferences_with_session_data ::
  "(string list \<Rightarrow> string list) \<Rightarrow> pref_state \<Rightarrow> string \<Rightarrow> string \<Rightarrow> string \<Rightarrow> string list
     \<Rightarrow> string \<Rightarrow> string \<Rightarrow> string \<Rightarrow> preferences \<times> pref_state" where
  "update_user_preferences_with_session_data list_set st now_iso sid email highlights
       original_letter edited_letter job_description =
     (let p = load_user_preferences st now_iso email;
          p = (if highlights \<noteq> []
               then p\<lparr>preferred_highlights := add_highlights highlights (preferred_highlights p)\<rparr>
               else p);
          p = (if original_letter \<noteq> [] \<and> edited_letter \<noteq> [] \<and> original_letter \<noteq> edited_letter
               then (let ep = analyze_user_edits original_letter edited_letter;
                         removed = commonly_removed_words (edit_patterns p) @ removals ep;
                         added = commonly_added_phrases (edit_patterns p) @ additions ep
                     in p\<lparr>edit_patterns := (edit_patterns p)
                            \<lparr>commonly_removed_words := list_set (last_n 50 removed),
                             commonly_added_phrases := list_set (last_n 50 added)\<rparr>\<rparr>)
               else p);
          job = \<lparr>entry_date = now_iso,
                 job_company = (if length job_description > 100
                                then take 100 job_description @ ''...'' else job_description),
                 highlights_used = highlights,
                 session_id = sid\<rparr>;
          p = p\<lparr>job_application_history := last_n 20 (job_application_history p @ [job])\<rparr>;
          p = p\<lparr>usage_count := usage_count p + 1\<rparr>
      in save_user_preferences st now_iso email p)"

text \<open>
  The history entry a call appends, and the condition under which a call analyses the
  edit (\<^verbatim>\<open>original_letter and edited_letter and original_letter != edited_letter\<close>).
\<close>

definition new_job :: "string \<Rightarrow> string \<Rightarrow> string list \<Rightarrow> string \<Rightarrow> job_entry" where
  "new_job now_iso sid highlights job_description =
     \<lparr>entry_date = now_iso,
      job_company = (if length job_description > 100
                     then take 100 job_description @ ''...'' else job_description),
      highlights_used = highlights,
      session_id = sid\<rparr>"

definition edits_analysed :: "string \<Rightarrow> string \<Rightarrow> bool" where
  "edits_analysed original_letter edited_letter =
     (original_letter \<noteq> [] \<and> edited_letter \<noteq> [] \<and> original_letter \<noteq> edited_letter)"

text \<open>What \<^verbatim>\<open>list(set(xs))\<close> guarantees: the elements of \<open>xs\<close>, each once.\<close>

definition list_set_ok :: "(string list \<Rightarrow> string list) \<Rightarrow> bool" where
  "list_set_ok list_set = (\<forall>xs. set (list_set xs) = set xs \<and> distinct (list_set xs))"

text \<open>
  One call of the update, as the data it is given, and a run of calls for one user.
\<close>

record merge_input =
  at_time :: string
  in_session :: string
  with_highlights :: "string list"
  original_text :: string
  edited_text :: string
  for_job :: string

definition merge_one :: "(string list \<Rightarrow> string list) \<Rightarrow> pref_state \<Rightarrow> string \<Rightarrow> merge_input \<Rightarrow> preferences \<times> pref_state" where
  "merge_one list_set st email x =
     update_user_preferences_with_session_data list_set st (at_time x) (in_session x) email
       (with_highlights x) (original_text x) (edited_text x) (for_job x)"

fun merge_all :: "(string list \<Rightarrow> string list) \<Rightarrow> pref_state \<Rightarrow> string \<Rightarrow> merge_input list \<Rightarrow> pref_state" where
  "merge_all list_set st email [] = st"
| "merge_all list_set st email (x # xs) = merge_all list_set (snd (merge_one list_set st email x)) email xs"

text \<open>Concrete data for evaluations: no preference file yet, and 51 distinct highlights.\<close>

definition no_profiles :: pref_state where
  "no_profiles = \<lparr>pref_files = (\<lambda>_. Missing), pref_writable = True\<rparr>"

definition many_highlights :: "string list" where
  "many_highlights = map (\<lambda>n. replicate n CHR ''h'') [1..<52]"


definition highlight_session :: merge_input where
  "highlight_session = \<lparr>at_time = ''2025-01-15T10:30:00'', in_session = ''a_at_x_com'',
      with_highlights = many_highlights, original_text = [], edited_text = [],
      for_job = ''Engineer at Example''\<rparr>"

definition edit_session :: merge_input where
  "edit_session = \<lparr>at_time = ''2025-01-15T10:30:00'', in_session = ''a_at_x_com'',
      with_highlights = [''Python''], original_text = ''a b c'', edited_text = ''a c'',
      for_job = ''Engineer at Example''\<rparr>"

text \<open>
  A session that deletes 64 distinct two-letter words (\<^verbatim>\<open>aa\<close>, \<^verbatim>\<open>ab\<close>, ..., \<^verbatim>\<open>hh\<close>) after a
  first word that is kept.
\<close>

definition long_original :: string where
  "long_original = ''keep'' @ concat (map (\<lambda>a. concat (map (\<lambda>b. [CHR '' '', a, b]) ''abcdefgh'')) ''abcdefgh'')"

definition long_edit_session :: merge_input where
  "long_edit_session = \<lparr>at_time = ''2025-01-15T10:30:00'', in_session = ''a_at_x_com'',
      with_highlights = [''Python'', ''Python''], original_text = long_original, edited_text = ''keep'',
      for_job = ''Engineer at Example''\<rparr>"


section \<open>Termination of the matching-block search\<close>

lemma match_step_inv:
  assumes old: "\<forall>j v. j2len j = Some v \<longrightarrow> v \<le> i - alo" and "alo \<le> i"
    and inv: "match_inv alo (Suc i) (Suc (i - alo)) st"
  shows "match_inv alo (Suc i) (Suc (i - alo)) (match_step j2len i j st)"
proof -
  obtain nj bi bj bs where st: "st = (nj, bi, bj, bs)" by (cases st)
  define k where "k = (if j = 0 then 0 else dict_get j2len (j - 1) 0) + 1"
  have "dict_get j2len (j - 1) 0 \<le> i - alo"
    using old by (cases "j2len (j - 1)") (simp_all add: dict_get_def)
  then have k: "k \<le> Suc (i - alo)" by (simp add: k_def)
  then have k2: "k \<le> Suc i" using assms(2) by linarith
  have res: "match_step j2len i j st =
               (if k > bs then (nj(j \<mapsto> k), i + 1 - k, j + 1 - k, k) else (nj(j \<mapsto> k), bi, bj, bs))"
    by (simp add: st match_step_def k_def Let_def)
  have nj: "\<forall>j' v. nj j' = Some v \<longrightarrow> v \<le> Suc (i - alo)" and bi: "alo \<le> bi" and top: "bi + bs \<le> Suc i"
    using inv by (simp_all add: st match_inv_def)
  have ent: "\<forall>j' v. (nj(j \<mapsto> k)) j' = Some v \<longrightarrow> v \<le> Suc (i - alo)"
  proof (intro allI impI)
    fix j' v assume h: "(nj(j \<mapsto> k)) j' = Some v"
    show "v \<le> Suc (i - alo)"
    proof (cases "j' = j")
      case True
      with h have "v = k" by simp
      then show ?thesis using k by simp
    next
      case False
      with h have "nj j' = Some v" by simp
      then show ?thesis using nj by blast
    qed
  qed
  show ?thesis
  proof (cases "k > bs")
    case True
    have "alo \<le> i + 1 - k" using k assms(2) by linarith
    moreover have "i + 1 - k + k \<le> Suc i" using k2 by linarith
    ultimately show ?thesis using ent True by (simp add: res match_inv_def)
  next
    case False
    then show ?thesis using ent bi top by (simp add: res match_inv_def)
  qed
qed

lemma match_fold_inv:
  assumes old: "\<forall>j v. j2len j = Some v \<longrightarrow> v \<le> i - alo" and "alo \<le> i"
    and inv: "match_inv alo (Suc i) (Suc (i - alo)) st"
  shows "match_inv alo (Suc i) (Suc (i - alo)) (fold (match_step j2len i) js st)"
  using inv
proof (induction js arbitrary: st)
  case Nil
  then show ?case by simp
next
  case (Cons j js)
  from match_step_inv [OF old assms(2) Cons.prems]
  have "match_inv alo (Suc i) (Suc (i - alo)) (match_step j2len i j st)" .
  from Cons.IH [OF this] show ?case by simp
qed

lemma match_row_inv:
  assumes "match_inv alo i (i - alo) st" and "alo \<le> i"
  shows "match_inv alo (Suc i) (Suc i - alo) (match_row a b blo bhi i st)"
proof -
  obtain j2len bi bj bs where st: "st = (j2len, bi, bj, bs)" by (cases st)
  have old: "\<forall>j v. j2len j = Some v \<longrightarrow> v \<le> i - alo"
    using assms(1) by (simp add: st match_inv_def)
  have start: "match_inv alo (Suc i) (Suc (i - alo)) (Map.empty, bi, bj, bs)"
    using assms(1) by (simp add: st match_inv_def)
  have eq: "Suc i - alo = Suc (i - alo)" using assms(2) by simp
  show ?thesis
    unfolding st match_row_def eq
    using match_fold_inv [OF old assms(2) start] by simp
qed

lemma match_rows_inv:
  assumes "alo \<le> n"
  shows "match_inv alo n (n - alo) (fold (match_row a b blo bhi) [alo..<n] (Map.empty, alo, blo, 0))"
  using assms
proof (induction n)
  case 0
  then show ?case by (simp add: match_inv_def)
next
  case (Suc n)
  show ?case
  proof (cases "alo \<le> n")
    case True
    then have up: "[alo..<Suc n] = [alo..<n] @ [n]" by simp
    show ?thesis
      unfolding up using match_row_inv [OF Suc.IH [OF True] True] by simp
  next
    case False
    then have "alo = Suc n" using Suc.prems by simp
    then show ?thesis by (simp add: match_inv_def)
  qed
qed

lemma extend_left_bounds:
  assumes "extend_left a b alo blo (bi, bj, bs) = (bi', bj', bs')" and "alo \<le> bi"
  shows "alo \<le> bi' \<and> bi' + bs' = bi + bs"
  using assms
proof (induction a b alo blo "(bi, bj, bs)" arbitrary: bi bj bs rule: extend_left.induct)
  case (1 a b alo blo besti bestj bestsize)
  show ?case
  proof (cases "besti > alo \<and> bestj > blo \<and> a ! (besti - 1) = b ! (bestj - 1)")
    case True
    then have "extend_left a b alo blo (besti - 1, bestj - 1, bestsize + 1) = (bi', bj', bs')"
      using "1.prems"(1) by (simp add: extend_left.simps [of a b alo blo besti bestj bestsize])
    moreover have "alo \<le> besti - 1" using True by linarith
    ultimately have "alo \<le> bi' \<and> bi' + bs' = (besti - 1) + (bestsize + 1)"
      using "1.hyps" [OF True] by blast
    then show ?thesis using True by simp
  next
    case False
    then have "extend_left a b alo blo (besti, bestj, bestsize) = (besti, bestj, bestsize)"
      by (simp only: extend_left.simps [of a b alo blo besti bestj bestsize] if_False)
    then show ?thesis using "1.prems" by simp
  qed
qed

lemma extend_right_bounds:
  assumes "extend_right a b ahi bhi (bi, bj, bs) = (bi', bj', bs')"
  shows "bi' = bi \<and> (bs' = bs \<or> bi' + bs' \<le> ahi)"
  using assms
proof (induction a b ahi bhi "(bi, bj, bs)" arbitrary: bi bj bs rule: extend_right.induct)
  case (1 a b ahi bhi besti bestj bestsize)
  show ?case
  proof (cases "besti + bestsize < ahi \<and> bestj + bestsize < bhi
         \<and> a ! (besti + bestsize) = b ! (bestj + bestsize)")
    case True
    then have "extend_right a b ahi bhi (besti, bestj, bestsize + 1) = (bi', bj', bs')"
      using "1.prems"(1) by (simp add: extend_right.simps [of a b ahi bhi besti bestj bestsize])
    from "1.hyps" [OF True this] True show ?thesis by linarith
  next
    case False
    then have "extend_right a b ahi bhi (besti, bestj, bestsize) = (besti, bestj, bestsize)"
      by (simp only: extend_right.simps [of a b ahi bhi besti bestj bestsize] if_False)
    then show ?thesis using "1.prems" by simp
  qed
qed

lemma find_longest_match_bounds:
  assumes "find_longest_match a b alo ahi blo bhi = (i, j, k)" and "k \<noteq> 0"
  shows "alo \<le> i \<and> i + k \<le> ahi"
proof -
  obtain j2len bi bj bs
    where dp: "fold (match_row a b blo bhi) [alo..<ahi] (Map.empty, alo, blo, 0) = (j2len, bi, bj, bs)"
    by (cases "fold (match_row a b blo bhi) [alo..<ahi] (Map.empty, alo, blo, 0)")
  obtain li lj ls where l: "extend_left a b alo blo (bi, bj, bs) = (li, lj, ls)"
    by (cases "extend_left a b alo blo (bi, bj, bs)")
  have r: "extend_right a b ahi bhi (li, lj, ls) = (i, j, k)"
    using assms(1) by (simp add: find_longest_match_def dp l)
  have base: "alo \<le> bi \<and> (bi + bs \<le> ahi \<or> bs = 0)"
  proof (cases "alo \<le> ahi")
    case True
    from match_rows_inv [OF True, of a b blo bhi] show ?thesis by (simp add: dp match_inv_def)
  next
    case False
    then show ?thesis using dp by simp
  qed
  from extend_left_bounds [OF l] base have lb: "alo \<le> li" "li + ls = bi + bs" by simp_all
  from extend_right_bounds [OF r] have rb: "i = li" "k = ls \<or> i + k \<le> ahi" by blast+
  have "i + k \<le> ahi"
  proof (cases "k = ls")
    case True
    show ?thesis
    proof (cases "alo \<le> ahi")
      case True
      from match_rows_inv [OF True, of a b blo bhi] have "bi + bs \<le> ahi" by (simp add: dp match_inv_def)
      then show ?thesis using lb rb \<open>k = ls\<close> by simp
    next
      case False
      then have "bi = alo" "bs = 0" using dp by simp_all
      have "ls = 0"
        using l \<open>bi = alo\<close> \<open>bs = 0\<close> by (simp add: extend_left.simps [of a b alo blo alo bj 0])
      then show ?thesis using \<open>k = ls\<close> assms(2) by simp
    qed
  next
    case False
    then show ?thesis using rb by simp
  qed
  then show ?thesis using lb rb by simp
qed

termination matching_blocks_loop
proof (relation "measure (\<lambda>(a, b, queue, blocks).
          sum_list (map (\<lambda>(alo, ahi, blo, bhi). 2 * (ahi - alo) + 1) queue))", goal_cases)
  case 1
  show ?case by simp
next
  case (2 a b alo ahi blo bhi queue blocks x y xa ya)
  then have flm: "find_longest_match a b alo ahi blo bhi = (x, xa, ya)" and nz: "ya \<noteq> 0"
    by simp_all
  from find_longest_match_bounds [OF this] have lo: "alo \<le> x" and hi: "x + ya \<le> ahi" by simp_all
  have pos: "0 < ya" using nz by simp
  have both: "Suc (2 * (ahi - (x + ya)) + 2 * (x - alo)) < 2 * (ahi - alo)"
    using lo hi pos by linarith
  have right: "x + ya < ahi \<Longrightarrow> ahi - (x + ya) < ahi - alo"
    using lo pos by linarith
  have left: "alo < x \<Longrightarrow> x - alo < ahi - alo"
    using hi pos by linarith
  show ?case using both right left nz by simp
next
  case 3
  then show ?case by simp
qed

declare matching_blocks_loop.simps [simp del]


section \<open>Properties of the daily quota tracker\<close>

lemma check_used_today:
  "used_today (fst (check_daily_cover_letter_limit s d r u l)) = stored_count s d u"
  by (simp add: check_daily_cover_letter_limit_def stored_count_def todays_view_def
      dict_get_def Let_def split: option.splits)

lemma check_remaining:
  "remaining (fst (check_daily_cover_letter_limit s d r u l)) = max 0 (l - stored_count s d u)"
  by (simp add: check_daily_cover_letter_limit_def stored_count_def todays_view_def
      dict_get_def Let_def split: option.splits)

lemma record_writable:
  "writable (snd (record_cover_letter_generation s d u)) = writable s"
  by (simp add: record_cover_letter_generation_def log_security_event_def Let_def)

lemma record_stored_count:
  assumes "writable s"
  shows "stored_count (snd (record_cover_letter_generation s d u)) d' u' =
           (if d' = d \<and> u' = u then stored_count s d u + 1 else stored_count s d' u')"
  using assms
  by (auto simp: record_cover_letter_generation_def log_security_event_def stored_count_def
      dict_get_def Let_def split: option.splits)

lemma record_times_writable:
  "writable (record_times k s d u) = writable s"
  by (induction k arbitrary: s) (simp_all add: record_writable)

lemma record_times_stored_count:
  assumes "writable s"
  shows "stored_count (record_times k s d u) d' u' =
           (if d' = d \<and> u' = u then stored_count s d u + int k else stored_count s d' u')"
  using assms
proof (induction k arbitrary: s)
  case 0
  then show ?case by simp
next
  case (Suc k)
  let ?s1 = "snd (record_cover_letter_generation s d u)"
  have w1: "writable ?s1" using Suc.prems by (simp add: record_writable)
  show ?case
    using Suc.IH [OF w1] Suc.prems by (simp add: record_stored_count)
qed

text \<open>
  Claim C4. Take a store that holds no count yet for the identity under the date \<open>d\<close> nor
  under a different date \<open>d'\<close> (the following calendar date), and in which writes succeed.
  After \<open>k\<close> calls of \<^verbatim>\<open>record_cover_letter_generation\<close> on date \<open>d\<close>, the status read on
  \<open>d\<close> reports \<open>used_today = k\<close> and \<open>remaining = max 0 (limit - k)\<close>, and the status read
  on \<open>d'\<close> reports \<open>used_today = 0\<close>, whatever \<open>k\<close> was.
\<close>

theorem daily_count_after_k_records:
  assumes "writable s"
    and "stored_count s d u = 0"
    and "stored_count s d' u = 0"
    and "d' \<noteq> d"
  shows "used_today (fst (check_daily_cover_letter_limit (record_times k s d u) d r u l)) = int k
       \<and> remaining (fst (check_daily_cover_letter_limit (record_times k s d u) d r u l)) = max 0 (l - int k)
       \<and> used_today (fst (check_daily_cover_letter_limit (record_times k s d u) d' r' u l')) = 0"
  using assms
  by (simp add: check_used_today check_remaining record_times_stored_count)

text \<open>
  Witness for C4: three generations recorded on 2025-01-15 in the store that holds a
  count of 3 for the day before; the limit is 5.
\<close>

theorem daily_count_after_k_records_witness:
  "used_today (fst (check_daily_cover_letter_limit
       (record_times 3 stale_store ''2025-01-15'' ''a@x.com'') ''2025-01-15'' ''2025-01-16T00:00:00'' ''a@x.com'' 5)) = 3
   \<and> remaining (fst (check_daily_cover_letter_limit
       (record_times 3 stale_store ''2025-01-15'' ''a@x.com'') ''2025-01-15'' ''2025-01-16T00:00:00'' ''a@x.com'' 5)) = 2
   \<and> used_today (fst (check_daily_cover_letter_limit
       (record_times 3 stale_store ''2025-01-15'' ''a@x.com'') ''2025-01-16'' ''2025-01-17T00:00:00'' ''a@x.com'' 5)) = 0"
proof -
  have w: "writable stale_store" by (simp add: stale_store_def)
  have c0: "stored_count stale_store ''2025-01-15'' ''a@x.com'' = 0"
    by (simp add: stale_store_def stored_count_def dict_get_def)
  have c1: "stored_count stale_store ''2025-01-16'' ''a@x.com'' = 0"
    by (simp add: stale_store_def stored_count_def dict_get_def)
  have ne: "''2025-01-16'' \<noteq> ''2025-01-15''" by simp
  show ?thesis
    using daily_count_after_k_records [OF w c0 c1 ne, of 3 "''2025-01-16T00:00:00''" 5 "''2025-01-17T00:00:00''" 5]
    by simp
qed

text \<open>
  Claim C5: every status read is to leave no date key other than today's in the persisted
  usage document. The code does not: on the store that holds a count under 2025-01-14, the
  status read on 2025-01-15 leaves the key 2025-01-14 in the persisted document. The
  dictionary that the "clean old entries" step builds is a local value that is never
  written back.
\<close>

theorem status_read_keeps_stale_date:
  "''2025-01-14'' \<in> stored_dates (snd (check_daily_cover_letter_limit
       stale_store ''2025-01-15'' ''2025-01-16T00:00:00'' ''a@x.com'' 5))"
  by (simp add: check_daily_cover_letter_limit_def stale_store_def stored_dates_def Let_def)

text \<open>
  What the status read does instead: it returns the state it was given, and reports what
  it would report on a store cut down to today's key.
\<close>

lemma status_read_changes_nothing:
  "snd (check_daily_cover_letter_limit s d r u l) = s
   \<and> dom (todays_view (load_or Map.empty (usage_file s)) d) = {d}
   \<and> fst (check_daily_cover_letter_limit s d r u l) =
       fst (check_daily_cover_letter_limit
              (s\<lparr>usage_file := Doc (todays_view (load_or Map.empty (usage_file s)) d)\<rparr>) d r u l)"
  by (auto simp: check_daily_cover_letter_limit_def todays_view_def dict_get_def Let_def
      split: option.splits)

section \<open>Properties of the rate limiter\<close>

lemma check_rate_limit_writable:
  "writable (snd (check_rate_limit s t u a n w)) = writable s"
  by (simp add: check_rate_limit_def log_security_event_def Let_def)

lemma check_rate_limit_reject:
  assumes "n \<le> int (length (filter (\<lambda>r. r > now - real_of_int (w * 60)) (recorded s a u)))"
  shows "check_rate_limit s now u a n w =
           (False, log_security_event ''RATE_LIMIT_EXCEEDED'' u
              [(''action'', JStr a),
               (''request_count'', JInt (int (length (filter (\<lambda>r. r > now - real_of_int (w * 60)) (recorded s a u))))),
               (''max_allowed'', JInt n)] s)"
  using assms by (simp add: check_rate_limit_def recorded_def Let_def)

lemma check_rate_limit_admit:
  assumes "int (length (filter (\<lambda>r. r > now - real_of_int (w * 60)) (recorded s a u))) < n"
    and "writable s"
  shows "fst (check_rate_limit s now u a n w)"
    and "recorded (snd (check_rate_limit s now u a n w)) a u =
           filter (\<lambda>r. r > now - real_of_int (w * 60)) (recorded s a u) @ [now]"
  using assms by (simp_all add: check_rate_limit_def recorded_def dict_get_def Let_def)

lemma check_rate_limit_admitted_iff:
  "fst (check_rate_limit s now u a n w) \<longleftrightarrow>
     int (length (filter (\<lambda>r. r > now - real_of_int (w * 60)) (recorded s a u))) < n"
  by (auto simp: check_rate_limit_def recorded_def Let_def)

lemma filter_window_mono:
  fixes c c' :: real
  assumes "c' \<le> c"
  shows "filter (\<lambda>r. c' < r \<and> c < r) xs = filter (\<lambda>r. c < r) xs"
  using assms by (intro filter_cong) auto

lemma admitted_step_count:
  assumes "writable s" and "fst (check_rate_limit s t u a n w)"
    and "now - real_of_int (w * 60) < t" and "t \<le> now"
  shows "length (filter (\<lambda>r. r > now - real_of_int (w * 60)) (recorded (snd (check_rate_limit s t u a n w)) a u))
           = Suc (length (filter (\<lambda>r. r > now - real_of_int (w * 60)) (recorded s a u)))"
proof -
  have lt: "int (length (filter (\<lambda>r. r > t - real_of_int (w * 60)) (recorded s a u))) < n"
    using assms(2) by (simp add: check_rate_limit_admitted_iff)
  have le: "t - real_of_int (w * 60) \<le> now - real_of_int (w * 60)"
    using assms(4) by simp
  have "filter (\<lambda>r. r > now - real_of_int (w * 60)) (recorded (snd (check_rate_limit s t u a n w)) a u)
          = filter (\<lambda>r. t - real_of_int (w * 60) < r \<and> now - real_of_int (w * 60) < r) (recorded s a u) @ [t]"
    using assms(3) by (simp add: check_rate_limit_admit(2) [OF lt assms(1)])
  also have "\<dots> = filter (\<lambda>r. now - real_of_int (w * 60) < r) (recorded s a u) @ [t]"
    by (simp only: filter_window_mono [OF le])
  finally show ?thesis by simp
qed

lemma admit_all_count:
  assumes "writable s" and "fst (admit_all s ts u a n w)"
    and "\<forall>t\<in>set ts. now - real_of_int (w * 60) < t \<and> t \<le> now"
  shows "length (filter (\<lambda>r. r > now - real_of_int (w * 60)) (recorded (snd (admit_all s ts u a n w)) a u))
           = length (filter (\<lambda>r. r > now - real_of_int (w * 60)) (recorded s a u)) + length ts"
  using assms
proof (induction ts arbitrary: s)
  case Nil
  then show ?case by simp
next
  case (Cons t ts)
  let ?s1 = "snd (check_rate_limit s t u a n w)"
  have adm: "fst (check_rate_limit s t u a n w)" and rest: "fst (admit_all ?s1 ts u a n w)"
    using Cons.prems(2) by (simp_all add: Let_def)
  have w1: "writable ?s1" using Cons.prems(1) by (simp add: check_rate_limit_writable)
  have win: "now - real_of_int (w * 60) < t" "t \<le> now" using Cons.prems(3) by simp_all
  have tl: "\<forall>t\<in>set ts. now - real_of_int (w * 60) < t \<and> t \<le> now" using Cons.prems(3) by simp
  show ?case
    using Cons.IH [OF w1 rest tl] admitted_step_count [OF Cons.prems(1) adm win]
    by (simp add: Let_def)
qed

lemma admit_all_length:
  assumes "writable s" and "fst (admit_all s ts u a n w)" and "ts \<noteq> []"
  shows "int (length (recorded (snd (admit_all s ts u a n w)) a u)) \<le> n
       \<and> recorded (snd (admit_all s ts u a n w)) a u \<noteq> []"
  using assms
proof (induction ts arbitrary: s)
  case Nil
  then show ?case by simp
next
  case (Cons t ts)
  let ?s1 = "snd (check_rate_limit s t u a n w)"
  have adm: "fst (check_rate_limit s t u a n w)" and rest: "fst (admit_all ?s1 ts u a n w)"
    using Cons.prems(2) by (simp_all add: Let_def)
  have w1: "writable ?s1" using Cons.prems(1) by (simp add: check_rate_limit_writable)
  have lt: "int (length (filter (\<lambda>r. r > t - real_of_int (w * 60)) (recorded s a u))) < n"
    using adm by (simp add: check_rate_limit_admitted_iff)
  show ?case
  proof (cases "ts = []")
    case True
    then show ?thesis
      using lt by (simp add: Let_def check_rate_limit_admit(2) [OF lt Cons.prems(1)])
  next
    case False
    then show ?thesis
      using Cons.IH [OF w1 rest] by (simp add: Let_def)
  qed
qed

text \<open>
  Claim C3. Let \<open>n\<close> requests of one identity and action be admitted in a row (writes
  succeeding), at clock readings \<open>ts\<close>. If all of them lie inside the window that ends at
  \<open>now\<close>, the next call at \<open>now\<close> returns \<^verbatim>\<open>False\<close>, leaves every rate-limit file as it was
  and appends the \<^verbatim>\<open>RATE_LIMIT_EXCEEDED\<close> entry to the audit log (once per attached
  handler). If instead the next call is made at a time \<open>later\<close> at which the window length
  has elapsed since the oldest recorded timestamp, it returns \<^verbatim>\<open>True\<close> and the recorded
  list becomes the pruned list followed by \<open>later\<close>.
\<close>

theorem rate_limit_window:
  assumes "writable s"
    and "fst (admit_all s ts u a n w)"
    and "int (length ts) = n"
    and "s1 = snd (admit_all s ts u a n w)"
  shows "((\<forall>t\<in>set ts. now - real_of_int (w * 60) < t \<and> t \<le> now) \<longrightarrow>
            \<not> fst (check_rate_limit s1 now u a n w)
          \<and> rate_files (snd (check_rate_limit s1 now u a n w)) = rate_files s1
          \<and> (\<exists>c. audit_log (snd (check_rate_limit s1 now u a n w)) =
                   audit_log s1 @ replicate (Suc (handlers s1)) (rate_limit_event u a c n)))
       \<and> (ts \<noteq> [] \<and> Min (set (recorded s1 a u)) + real_of_int (w * 60) \<le> later \<longrightarrow>
            fst (check_rate_limit s1 later u a n w)
          \<and> recorded (snd (check_rate_limit s1 later u a n w)) a u =
              filter (\<lambda>r. r > later - real_of_int (w * 60)) (recorded s1 a u) @ [later])"
proof (intro conjI impI)
  assume win: "\<forall>t\<in>set ts. now - real_of_int (w * 60) < t \<and> t \<le> now"
  have "length (filter (\<lambda>r. r > now - real_of_int (w * 60)) (recorded s1 a u)) \<ge> length ts"
    using admit_all_count [OF assms(1,2) win] assms(4) by simp
  then have full: "n \<le> int (length (filter (\<lambda>r. r > now - real_of_int (w * 60)) (recorded s1 a u)))"
    using assms(3) by linarith
  note rej = check_rate_limit_reject [OF full]
  show "\<not> fst (check_rate_limit s1 now u a n w)" by (simp add: rej)
  show "rate_files (snd (check_rate_limit s1 now u a n w)) = rate_files s1"
    by (simp add: rej log_security_event_def Let_def)
  show "\<exists>c. audit_log (snd (check_rate_limit s1 now u a n w)) =
                   audit_log s1 @ replicate (Suc (handlers s1)) (rate_limit_event u a c n)"
    by (simp add: rej log_security_event_def rate_limit_event_def Let_def)
next
  assume late: "ts \<noteq> [] \<and> Min (set (recorded s1 a u)) + real_of_int (w * 60) \<le> later"
  let ?L = "recorded s1 a u"
  have len: "int (length ?L) \<le> n" and ne: "?L \<noteq> []"
    using admit_all_length [OF assms(1,2)] late assms(4) by simp_all
  have w1: "writable s1"
    using assms(1,4)
  proof (induction ts arbitrary: s s1)
    case Nil
    then show ?case by simp
  next
    case (Cons t ts)
    have "writable (snd (check_rate_limit s t u a n w))"
      using Cons.prems(1) by (simp add: check_rate_limit_writable)
    from Cons.IH [OF this refl] show ?case using Cons.prems(2) by (simp add: Let_def)
  qed
  have mem: "Min (set ?L) \<in> set ?L" using ne by simp
  have out: "\<not> (Min (set ?L) > later - real_of_int (w * 60))" using late by linarith
  have "length (filter (\<lambda>r. r > later - real_of_int (w * 60)) ?L) < length ?L"
    using mem out by (rule length_filter_less)
  then have lt: "int (length (filter (\<lambda>r. r > later - real_of_int (w * 60)) ?L)) < n"
    using len by linarith
  show "fst (check_rate_limit s1 later u a n w)"
    using check_rate_limit_admit(1) [OF lt w1] .
  show "recorded (snd (check_rate_limit s1 later u a n w)) a u =
          filter (\<lambda>r. r > later - real_of_int (w * 60)) ?L @ [later]"
    using check_rate_limit_admit(2) [OF lt w1] .
qed

text \<open>
  Witness for C3: limit 2 in a window of one minute, requests admitted at seconds 100 and
  110 on an empty store; a third request at 120 is rejected, one at 160 is admitted.
\<close>

theorem rate_limit_window_witness:
  "fst (admit_all stale_store [100, 110] ''a@x.com'' ''authentication'' 2 1)
   \<and> \<not> fst (check_rate_limit (snd (admit_all stale_store [100, 110] ''a@x.com'' ''authentication'' 2 1))
              120 ''a@x.com'' ''authentication'' 2 1)
   \<and> rate_files (snd (check_rate_limit (snd (admit_all stale_store [100, 110] ''a@x.com'' ''authentication'' 2 1))
              120 ''a@x.com'' ''authentication'' 2 1))
       = rate_files (snd (admit_all stale_store [100, 110] ''a@x.com'' ''authentication'' 2 1))
   \<and> fst (check_rate_limit (snd (admit_all stale_store [100, 110] ''a@x.com'' ''authentication'' 2 1))
              160 ''a@x.com'' ''authentication'' 2 1)
   \<and> recorded (snd (check_rate_limit (snd (admit_all stale_store [100, 110] ''a@x.com'' ''authentication'' 2 1))
              160 ''a@x.com'' ''authentication'' 2 1)) ''authentication'' ''a@x.com'' = [110, 160]"
proof -
  let ?s1 = "snd (admit_all stale_store [100, 110] ''a@x.com'' ''authentication'' 2 1)"
  have w: "writable stale_store" by (simp add: stale_store_def)
  have rec: "recorded ?s1 ''authentication'' ''a@x.com'' = [100, 110]"
    by (simp add: check_rate_limit_def recorded_def stale_store_def dict_get_def Let_def)
  have adm: "fst (admit_all stale_store [100, 110] ''a@x.com'' ''authentication'' 2 1)"
    by (simp add: check_rate_limit_def stale_store_def dict_get_def Let_def)
  have len: "int (length [100, 110 :: real]) = 2" by simp
  have win: "\<forall>t\<in>set [100, 110 :: real]. 120 - real_of_int (1 * 60) < t \<and> t \<le> 120" by simp
  have late: "[100, 110 :: real] \<noteq> [] \<and> Min (set (recorded ?s1 ''authentication'' ''a@x.com'')) + real_of_int (1 * 60) \<le> 160"
    by (simp add: rec del: admit_all.simps)
  from rate_limit_window [OF w adm len refl, of 120 160] win late rec adm
  show ?thesis by (simp del: admit_all.simps)
qed


section \<open>Properties of the invitation registry\<close>

lemma dict_set_keys: "set (map fst (dict_set d k v)) = insert k (set (map fst d))"
  by (induction d k v rule: dict_set.induct) auto

lemma fold_dict_set_keys:
  "set (map fst (fold (\<lambda>(k, v) acc. dict_set acc k (f k v)) other d)) = set (map fst d) \<union> set (map fst other)"
proof (induction other arbitrary: d)
  case Nil
  then show ?case by simp
next
  case (Cons kv other)
  obtain k v where kv: "kv = (k, v)" by (cases kv)
  have "set (map fst (fold (\<lambda>(k, v) acc. dict_set acc k (f k v)) (kv # other) d))
          = set (map fst (dict_set d k (f k v))) \<union> set (map fst other)"
    using Cons.IH [of "dict_set d k (f k v)"] by (simp add: kv)
  also have "\<dots> = set (map fst d) \<union> set (map fst (kv # other))"
    by (simp only: dict_set_keys) (auto simp: kv)
  finally show ?case .
qed

lemma dict_update_keys: "set (map fst (dict_update d other)) = set (map fst d) \<union> set (map fst other)"
  using fold_dict_set_keys [of "\<lambda>k v. v" other d] by (simp add: dict_update_def)

lemma load_invited_users_keys: "set (map fst (load_invited_users env)) = store_keys env"
proof -
  let ?mk = "\<lambda>(k::string) (nm::string). [(''name'', JStr nm), (''invited_date'', JStr ''2025-01-15''),
                                             (''status'', JStr ''active''), (''access_level'', JStr ''user'')]"
  show ?thesis
    unfolding load_invited_users_def store_keys_def Let_def
    by (simp only: fold_dict_set_keys [of ?mk] dict_update_keys split: json_file.splits option.splits) simp
qed

text \<open>
  Claim C9. \<^verbatim>\<open>is_user_invited\<close> returns \<^verbatim>\<open>True\<close> exactly when the lower-cased email equals the
  lower-cased form of some key of the invitation store (the keys of the file and of the
  secrets); so it returns \<^verbatim>\<open>False\<close> for every email when the store has no key, which is
  the case in particular when the file is absent or malformed and the secrets name no
  invited user.
\<close>

theorem invited_iff_key_matches: "(is_user_invited env email \<longleftrightarrow> (\<exists>k\<in>store_keys env. lower k = lower email))
   \<and> (store_keys env = {} \<longrightarrow> \<not> is_user_invited env email)
   \<and> ((invited_file env = Missing \<or> invited_file env = Malformed) \<and> secrets_invited env = None
        \<longrightarrow> store_keys env = {})"
proof -
  have iff: "is_user_invited env email \<longleftrightarrow> (\<exists>k\<in>store_keys env. lower k = lower email)"
  proof -
    have "set (map (\<lambda>user_email. lower user_email) (map fst (load_invited_users env))) = lower ` store_keys env"
      by (simp only: set_map load_invited_users_keys [symmetric])
    then have "is_user_invited env email \<longleftrightarrow> lower email \<in> lower ` store_keys env"
      unfolding is_user_invited_def by simp
    also have "\<dots> \<longleftrightarrow> (\<exists>k\<in>store_keys env. lower k = lower email)"
      unfolding image_iff by metis
    finally show ?thesis .
  qed
  have empty: "(invited_file env = Missing \<or> invited_file env = Malformed) \<and> secrets_invited env = None
        \<longrightarrow> store_keys env = {}"
    by (auto simp: store_keys_def)
  show ?thesis using iff empty by simp
qed

text \<open>
  Witness for C9: the sample store has the one key \<^verbatim>\<open>Alice@Example.com\<close>; a differently
  cased spelling is invited, and nobody is once the file is malformed.
\<close>

theorem invited_iff_key_matches_witness:
  "is_user_invited sample_env ''ALICE@example.COM''
   \<and> \<not> is_user_invited (sample_env\<lparr>invited_file := Malformed\<rparr>) ''ALICE@example.COM''"
proof -
  have k: "store_keys sample_env = {''Alice@Example.com''}"
    by (simp add: store_keys_def sample_env_def)
  have l: "lower ''Alice@Example.com'' = lower ''ALICE@example.COM''"
    by code_simp
  have m: "(invited_file (sample_env\<lparr>invited_file := Malformed\<rparr>) = Missing
            \<or> invited_file (sample_env\<lparr>invited_file := Malformed\<rparr>) = Malformed)
           \<and> secrets_invited (sample_env\<lparr>invited_file := Malformed\<rparr>) = None"
    by (simp add: sample_env_def)
  show ?thesis
    using invited_iff_key_matches [of sample_env "''ALICE@example.COM''"]
      invited_iff_key_matches [of "sample_env\<lparr>invited_file := Malformed\<rparr>" "''ALICE@example.COM''"]
      k l m
    by simp
qed


section \<open>Properties of the session tokens\<close>

lemma hexchar_in: "n < 16 \<Longrightarrow> hexchar n \<in> set hex_digits"
  unfolding hexchar_def by (rule nth_mem) (simp add: hex_digits_def)

lemma hex_byte_chars: "set (hex_byte b) \<subseteq> set hex_digits"
proof -
  have "unat b < 2 ^ LENGTH(8)" by (rule unsigned_less)
  then have lt: "unat b < 256" by simp
  have d: "unat b div 16 < 16" using lt by (simp add: less_mult_imp_div_less)
  have m: "unat b mod 16 < 16" by simp
  show ?thesis using hexchar_in [OF d] hexchar_in [OF m] by (simp add: hex_byte_def)
qed

lemma hexdigest_chars: "set (hexdigest bs) \<subseteq> set hex_digits"
  unfolding hexdigest_def using hex_byte_chars by (induction bs) simp_all

lemma hex_digits_no_colon: "CHR '':'' \<notin> set hex_digits"
  by (simp add: hex_digits_def)

lemma hex_digits_ascii: "c \<in> set hex_digits \<Longrightarrow> (of_char c :: nat) < 128"
  by (auto simp: hex_digits_def)


lemma hexdigest_no_colon: "CHR '':'' \<notin> set (hexdigest bs)"
proof
  assume "CHR '':'' \<in> set (hexdigest bs)"
  then have "CHR '':'' \<in> set hex_digits" using hexdigest_chars [of bs] by (rule subsetD [rotated])
  then show False using hex_digits_no_colon by simp
qed

lemma hexdigest_ascii: "is_ascii (hexdigest bs)"
proof -
  have "\<forall>c\<in>set (hexdigest bs). (of_char c :: nat) < 128"
  proof
    fix c assume "c \<in> set (hexdigest bs)"
    then have "c \<in> set hex_digits" using hexdigest_chars [of bs] by (rule subsetD [rotated])
    then show "(of_char c :: nat) < 128" by (rule hex_digits_ascii)
  qed
  then show ?thesis by (simp add: is_ascii_def list_all_iff)
qed

lemma split_once_append:
  assumes "sep \<notin> set a"
  shows "split_once sep (a @ sep # b) = [a, b]"
proof -
  have p: "\<And>x. x \<in> set a \<Longrightarrow> x \<noteq> sep" using assms by blast
  have t: "takeWhile (\<lambda>c. c \<noteq> sep) (a @ sep # b) = a"
    using p by (simp add: takeWhile_append2)
  have d: "dropWhile (\<lambda>c. c \<noteq> sep) (a @ sep # b) = sep # b"
    using p by (simp add: dropWhile_append2)
  show ?thesis by (simp add: split_once_def t d)
qed

lemma split_once_no_sep: "sep \<notin> set s \<Longrightarrow> split_once sep s = [s]"
  by (simp add: split_once_def)

lemma split_once_decompose:
  assumes "sep \<in> set s"
  shows "\<exists>a b. s = a @ sep # b \<and> sep \<notin> set a"
  using assms by (rule split_list_first)

lemma split_once_pair:
  "split_once sep s = [a, b] \<longleftrightarrow> s = a @ sep # b \<and> sep \<notin> set a"
proof
  assume h: "split_once sep s = [a, b]"
  have m: "sep \<in> set s"
  proof (rule ccontr)
    assume "sep \<notin> set s"
    then have "split_once sep s = [s]" by (rule split_once_no_sep)
    with h show False by simp
  qed
  from split_once_decompose [OF m] obtain a' b' where s: "s = a' @ sep # b'" and n: "sep \<notin> set a'"
    by (elim exE conjE)
  have "split_once sep s = [a', b']" unfolding s using n by (rule split_once_append)
  with h have "a = a'" "b = b'" by simp_all
  then show "s = a @ sep # b \<and> sep \<notin> set a" using s n by simp
next
  assume "s = a @ sep # b \<and> sep \<notin> set a"
  then show "split_once sep s = [a, b]" by (simp add: split_once_append)
qed

lemma signature_ascii: "is_ascii (signature lib env email ts)"
  by (simp add: signature_def hexdigest_ascii)

lemma signature_no_colon: "CHR '':'' \<notin> set (signature lib env email ts)"
  by (simp add: signature_def hexdigest_no_colon)

lemma verify_no_separator:
  assumes "CHR '':'' \<notin> set token"
  shows "verify_body lib env now email token = Inl ValueError"
  using assms by (simp add: verify_body_def split_once_no_sep)

lemma verify_body_split:
  assumes "CHR '':'' \<notin> set sg"
  shows "verify_body lib env now email (sg @ CHR '':'' # ts) =
     (case fromisoformat lib ts of
        None \<Rightarrow> Inl ValueError
      | Some timestamp \<Rightarrow>
          (case elapsed_since now timestamp of
             Inl e \<Rightarrow> Inl e
           | Inr age \<Rightarrow>
               (case timedelta_hours (timeout_hours env) of
                  Inl e \<Rightarrow> Inl e
                | Inr limit \<Rightarrow>
                    if age > limit then Inr False
                    else compare_digest sg (signature lib env email ts))))"
  by (simp add: verify_body_def split_once_append [OF assms])

lemma verify_no_sep_false:
  "CHR '':'' \<notin> set token \<Longrightarrow> \<not> verify_session_token lib env now email token"
  by (simp add: verify_session_token_def verify_no_separator)












lemma create_shape:
  "create_session_token lib env t0 email =
     signature lib env email (isoformat lib t0) @ CHR '':'' # isoformat lib t0"
  by (simp add: create_session_token_def Let_def)

lemma verify_split_iff:
  assumes "CHR '':'' \<notin> set sg"
  shows "verify_session_token lib env now email (sg @ CHR '':'' # ts) \<longleftrightarrow>
           (\<exists>t. fromisoformat lib ts = Some (Naive t)
                \<and> - 23999999976 \<le> timeout_hours env \<and> timeout_hours env \<le> 23999999999
                \<and> now - t \<le> timeout_hours env * 3600000000
                \<and> sg = signature lib env email ts)"
proof (cases "fromisoformat lib ts")
  case None
  then show ?thesis
    by (simp add: verify_session_token_def verify_body_split [OF assms])
next
  case (Some d)
  show ?thesis
  proof (cases d)
    case (Naive t)
    show ?thesis
      unfolding verify_session_token_def verify_body_split [OF assms]
      by (auto simp: Some Naive timedelta_hours_def compare_digest_def signature_ascii)
  next
    case (Aware t off)
    show ?thesis
      by (simp add: verify_session_token_def verify_body_split [OF assms] Some Aware)
  qed
qed

lemma verify_created_iff:
  "verify_session_token lib env now B (create_session_token lib env t0 A) \<longleftrightarrow>
     (\<exists>t. fromisoformat lib (isoformat lib t0) = Some (Naive t)
          \<and> - 23999999976 \<le> timeout_hours env \<and> timeout_hours env \<le> 23999999999
          \<and> now - t \<le> timeout_hours env * 3600000000
          \<and> signature lib env A (isoformat lib t0) = signature lib env B (isoformat lib t0))"
  unfolding create_shape by (rule verify_split_iff [OF signature_no_colon])

lemma verify_iff:
  "verify_session_token lib env now email token \<longleftrightarrow>
     (\<exists>sg ts t. token = sg @ CHR '':'' # ts \<and> CHR '':'' \<notin> set sg
          \<and> fromisoformat lib ts = Some (Naive t)
          \<and> - 23999999976 \<le> timeout_hours env \<and> timeout_hours env \<le> 23999999999
          \<and> now - t \<le> timeout_hours env * 3600000000
          \<and> sg = signature lib env email ts)"
proof (cases "CHR '':'' \<in> set token")
  case False
  have "\<not> verify_session_token lib env now email token" using False by (rule verify_no_sep_false)
  moreover have "\<not> (\<exists>sg ts t. token = sg @ CHR '':'' # ts \<and> CHR '':'' \<notin> set sg
          \<and> fromisoformat lib ts = Some (Naive t)
          \<and> - 23999999976 \<le> timeout_hours env \<and> timeout_hours env \<le> 23999999999
          \<and> now - t \<le> timeout_hours env * 3600000000
          \<and> sg = signature lib env email ts)"
  proof
    assume "\<exists>sg ts t. token = sg @ CHR '':'' # ts \<and> CHR '':'' \<notin> set sg
          \<and> fromisoformat lib ts = Some (Naive t)
          \<and> - 23999999976 \<le> timeout_hours env \<and> timeout_hours env \<le> 23999999999
          \<and> now - t \<le> timeout_hours env * 3600000000
          \<and> sg = signature lib env email ts"
    then obtain sg ts where "token = sg @ CHR '':'' # ts" by (elim exE conjE)
    then have "CHR '':'' \<in> set token" by simp
    with False show False by (rule notE)
  qed
  ultimately show ?thesis by blast
next
  case True
  from split_once_decompose [OF True] obtain sg0 ts0
    where tk: "token = sg0 @ CHR '':'' # ts0" and ns: "CHR '':'' \<notin> set sg0"
    by (elim exE conjE)
  show ?thesis
  proof
    assume "verify_session_token lib env now email token"
    then obtain t where "fromisoformat lib ts0 = Some (Naive t)"
      "- 23999999976 \<le> timeout_hours env" "timeout_hours env \<le> 23999999999"
      "now - t \<le> timeout_hours env * 3600000000" "sg0 = signature lib env email ts0"
      unfolding tk verify_split_iff [OF ns] by (elim exE conjE)
    then show "\<exists>sg ts t. token = sg @ CHR '':'' # ts \<and> CHR '':'' \<notin> set sg
          \<and> fromisoformat lib ts = Some (Naive t)
          \<and> - 23999999976 \<le> timeout_hours env \<and> timeout_hours env \<le> 23999999999
          \<and> now - t \<le> timeout_hours env * 3600000000
          \<and> sg = signature lib env email ts"
      using tk ns by (intro exI [of _ sg0] exI [of _ ts0] exI [of _ t]) simp
  next
    assume "\<exists>sg ts t. token = sg @ CHR '':'' # ts \<and> CHR '':'' \<notin> set sg
          \<and> fromisoformat lib ts = Some (Naive t)
          \<and> - 23999999976 \<le> timeout_hours env \<and> timeout_hours env \<le> 23999999999
          \<and> now - t \<le> timeout_hours env * 3600000000
          \<and> sg = signature lib env email ts"
    then obtain sg ts t where h: "token = sg @ CHR '':'' # ts" "CHR '':'' \<notin> set sg"
      "fromisoformat lib ts = Some (Naive t)"
      "- 23999999976 \<le> timeout_hours env" "timeout_hours env \<le> 23999999999"
      "now - t \<le> timeout_hours env * 3600000000" "sg = signature lib env email ts"
      by (elim exE conjE)
    show "verify_session_token lib env now email token"
      unfolding h(1) verify_split_iff [OF h(2)] using h(3-7) by (intro exI [of _ t]) simp
  qed
qed


text \<open>
  Claim C2, amended. \<^verbatim>\<open>verify_session_token\<close> is a total boolean function that is \<^verbatim>\<open>True\<close>
  exactly for a credential \<^verbatim>\<open>signature:timestamp\<close> (split at its first colon) whose
  timestamp parses to a naive time no older than the configured timeout, a timeout a
  \<^verbatim>\<open>timedelta\<close> can hold, and whose signature is the expected one. Every exception of the
  body gives \<^verbatim>\<open>False\<close>; so do a credential without separator, an unparsable timestamp, a
  time comparison that cannot be carried out (an aware timestamp, an unrepresentable
  timeout), an age above the timeout and a signature mismatch. A timestamp ahead of the
  clock is no ground for rejection: a credential issued at \<open>t0\<close> verifies at every clock
  reading \<open>now \<le> t0\<close>.
\<close>

theorem verify_fails_closed:
  "(verify_session_token lib env now email token \<longleftrightarrow>
      (\<exists>sg ts t. token = sg @ CHR '':'' # ts \<and> CHR '':'' \<notin> set sg
          \<and> fromisoformat lib ts = Some (Naive t)
          \<and> - 23999999976 \<le> timeout_hours env \<and> timeout_hours env \<le> 23999999999
          \<and> now - t \<le> timeout_hours env * 3600000000
          \<and> sg = signature lib env email ts))
   \<and> (verify_session_token lib env now email token \<longleftrightarrow> verify_body lib env now email token = Inr True)
   \<and> (verify_body lib env now email token = Inl e \<longrightarrow> \<not> verify_session_token lib env now email token)
   \<and> (CHR '':'' \<notin> set token \<longrightarrow> \<not> verify_session_token lib env now email token)
   \<and> (CHR '':'' \<notin> set sg \<and> fromisoformat lib ts = None
        \<longrightarrow> \<not> verify_session_token lib env now email (sg @ CHR '':'' # ts))
   \<and> (CHR '':'' \<notin> set sg \<and> fromisoformat lib ts = Some (Aware t off)
        \<longrightarrow> \<not> verify_session_token lib env now email (sg @ CHR '':'' # ts))
   \<and> (CHR '':'' \<notin> set sg \<and> \<not> (- 23999999976 \<le> timeout_hours env \<and> timeout_hours env \<le> 23999999999)
        \<longrightarrow> \<not> verify_session_token lib env now email (sg @ CHR '':'' # ts))
   \<and> (CHR '':'' \<notin> set sg \<and> fromisoformat lib ts = Some (Naive t) \<and> now - t > timeout_hours env * 3600000000
        \<longrightarrow> \<not> verify_session_token lib env now email (sg @ CHR '':'' # ts))
   \<and> (CHR '':'' \<notin> set sg \<and> sg \<noteq> signature lib env email ts
        \<longrightarrow> \<not> verify_session_token lib env now email (sg @ CHR '':'' # ts))
   \<and> (fromisoformat lib (isoformat lib t0) = Some (Naive t0)
        \<and> 0 \<le> timeout_hours env \<and> timeout_hours env \<le> 23999999999 \<and> now \<le> t0
        \<longrightarrow> verify_session_token lib env now email (create_session_token lib env t0 email))"
proof (intro conjI impI)
  show "verify_session_token lib env now email token \<longleftrightarrow>
      (\<exists>sg ts t. token = sg @ CHR '':'' # ts \<and> CHR '':'' \<notin> set sg
          \<and> fromisoformat lib ts = Some (Naive t)
          \<and> - 23999999976 \<le> timeout_hours env \<and> timeout_hours env \<le> 23999999999
          \<and> now - t \<le> timeout_hours env * 3600000000
          \<and> sg = signature lib env email ts)"
    by (rule verify_iff)
next
  show "verify_session_token lib env now email token \<longleftrightarrow> verify_body lib env now email token = Inr True"
    by (simp add: verify_session_token_def split: sum.splits)
next
  assume "verify_body lib env now email token = Inl e"
  then show "\<not> verify_session_token lib env now email token"
    by (simp add: verify_session_token_def)
next
  assume "CHR '':'' \<notin> set token"
  then show "\<not> verify_session_token lib env now email token" by (rule verify_no_sep_false)
next
  assume "CHR '':'' \<notin> set sg \<and> fromisoformat lib ts = None"
  then show "\<not> verify_session_token lib env now email (sg @ CHR '':'' # ts)"
    by (simp add: verify_session_token_def verify_body_split)
next
  assume "CHR '':'' \<notin> set sg \<and> fromisoformat lib ts = Some (Aware t off)"
  then show "\<not> verify_session_token lib env now email (sg @ CHR '':'' # ts)"
    by (simp add: verify_session_token_def verify_body_split)
next
  assume "CHR '':'' \<notin> set sg \<and> \<not> (- 23999999976 \<le> timeout_hours env \<and> timeout_hours env \<le> 23999999999)"
  then show "\<not> verify_session_token lib env now email (sg @ CHR '':'' # ts)"
    by (auto simp: verify_session_token_def verify_body_split timedelta_hours_def
        split: option.splits sum.splits)
next
  assume "CHR '':'' \<notin> set sg \<and> fromisoformat lib ts = Some (Naive t) \<and> now - t > timeout_hours env * 3600000000"
  then show "\<not> verify_session_token lib env now email (sg @ CHR '':'' # ts)"
    by (simp add: verify_session_token_def verify_body_split timedelta_hours_def)
next
  assume "CHR '':'' \<notin> set sg \<and> sg \<noteq> signature lib env email ts"
  then show "\<not> verify_session_token lib env now email (sg @ CHR '':'' # ts)"
    by (auto simp: verify_session_token_def verify_body_split compare_digest_def
        split: option.splits sum.splits)
next
  assume h: "fromisoformat lib (isoformat lib t0) = Some (Naive t0)
        \<and> 0 \<le> timeout_hours env \<and> timeout_hours env \<le> 23999999999 \<and> now \<le> t0"
  then have "now - t0 \<le> timeout_hours env * 3600000000" by simp
  with h show "verify_session_token lib env now email (create_session_token lib env t0 email)"
    unfolding verify_created_iff by (intro exI [of _ t0]) simp
qed

text \<open>
  Claim C2, as stated, fails for a clock anomaly: with the default configuration a
  credential stamped one hour ahead of the clock is accepted.
\<close>

theorem future_credential_accepted_counterexample:
  "verify_session_token sample_lib sample_env 1736933400000000 ''a@x.com''
     (create_session_token sample_lib sample_env 1736937000000000 ''a@x.com'')"
  unfolding verify_created_iff
  by (intro exI [of _ 1736937000000000]) (simp add: sample_lib_def timeout_hours_def sample_env_def)

text \<open>
  Witness for C2, with the sample library and the default configuration: a credential
  without colon, one with an unparsable timestamp, one with an aware timestamp, one that
  is 25 hours old and one with a wrong signature are all rejected, and a credential
  stamped two hours ahead of the clock is accepted.
\<close>

theorem verify_fails_closed_witness:
  "\<not> verify_session_token sample_lib sample_env 1736937000000000 ''a@x.com'' ''nocolon''
   \<and> \<not> verify_session_token sample_lib sample_env 1736937000000000 ''a@x.com'' ''z:not-a-date''
   \<and> \<not> verify_session_token sample_lib sample_env 1736937000000000 ''a@x.com'' ''z:2025-01-15T10:30:00+00:00''
   \<and> \<not> verify_session_token sample_lib sample_env 1737027000000000 ''a@x.com'' ''z:2025-01-15T10:30:00''
   \<and> \<not> verify_session_token sample_lib sample_env 1736937000000000 ''a@x.com'' ''z:2025-01-15T10:30:00''
   \<and> verify_session_token sample_lib sample_env 1736929800000000 ''a@x.com''
         (create_session_token sample_lib sample_env 1736937000000000 ''a@x.com'')"
proof -
  have th: "timeout_hours sample_env = 24" by (simp add: timeout_hours_def sample_env_def)
  have p1: "fromisoformat sample_lib ''not-a-date'' = None" by (simp add: sample_lib_def)
  have p2: "fromisoformat sample_lib ''2025-01-15T10:30:00+00:00'' = Some (Aware 1736937000000000 0)"
    by (simp add: sample_lib_def)
  have p3: "fromisoformat sample_lib ''2025-01-15T10:30:00'' = Some (Naive 1736937000000000)"
    by (simp add: sample_lib_def)
  have p4: "''z'' \<noteq> signature sample_lib sample_env ''a@x.com'' ''2025-01-15T10:30:00''"
  proof
    assume "''z'' = signature sample_lib sample_env ''a@x.com'' ''2025-01-15T10:30:00''"
    then have "CHR ''z'' \<in> set (hexdigest (hmac_sha256 sample_lib (encode (secret_key sample_env))
                 (encode (''a@x.com'' @ '':'' @ ''2025-01-15T10:30:00''))))"
      unfolding signature_def by (metis list.set_intros(1))
    then have "CHR ''z'' \<in> set hex_digits" using hexdigest_chars by (rule subsetD [rotated])
    then show False by (simp add: hex_digits_def)
  qed
  note c = conjunct1 conjunct2
  have nc: "CHR '':'' \<notin> set ''z''" by simp
  have r1: "\<not> verify_session_token sample_lib sample_env 1736937000000000 ''a@x.com'' ''nocolon''"
    using verify_fails_closed [where lib = sample_lib and env = sample_env and now = 1736937000000000
        and email = "''a@x.com''" and token = "''nocolon''", THEN c(2), THEN c(2), THEN c(2), THEN c(1)]
    by simp
  have r2: "\<not> verify_session_token sample_lib sample_env 1736937000000000 ''a@x.com'' ''z:not-a-date''"
    using verify_fails_closed [where lib = sample_lib and env = sample_env and now = 1736937000000000
        and email = "''a@x.com''" and sg = "''z''" and ts = "''not-a-date''",
        THEN c(2), THEN c(2), THEN c(2), THEN c(2), THEN c(1)] nc p1
    by simp
  have r3: "\<not> verify_session_token sample_lib sample_env 1736937000000000 ''a@x.com'' ''z:2025-01-15T10:30:00+00:00''"
    using verify_fails_closed [where lib = sample_lib and env = sample_env and now = 1736937000000000
        and email = "''a@x.com''" and sg = "''z''" and ts = "''2025-01-15T10:30:00+00:00''"
        and t = 1736937000000000 and off = 0,
        THEN c(2), THEN c(2), THEN c(2), THEN c(2), THEN c(2), THEN c(1)] nc p2
    by simp
  have r4: "\<not> verify_session_token sample_lib sample_env 1737027000000000 ''a@x.com'' ''z:2025-01-15T10:30:00''"
    using verify_fails_closed [where lib = sample_lib and env = sample_env and now = 1737027000000000
        and email = "''a@x.com''" and sg = "''z''" and ts = "''2025-01-15T10:30:00''"
        and t = 1736937000000000,
        THEN c(2), THEN c(2), THEN c(2), THEN c(2), THEN c(2), THEN c(2), THEN c(2), THEN c(1)] nc p3 th
    by simp
  have r5: "\<not> verify_session_token sample_lib sample_env 1736937000000000 ''a@x.com'' ''z:2025-01-15T10:30:00''"
    using verify_fails_closed [where lib = sample_lib and env = sample_env and now = 1736937000000000
        and email = "''a@x.com''" and sg = "''z''" and ts = "''2025-01-15T10:30:00''",
        THEN c(2), THEN c(2), THEN c(2), THEN c(2), THEN c(2), THEN c(2), THEN c(2), THEN c(2), THEN c(1)] nc p4
    by simp
  have rt: "fromisoformat sample_lib (isoformat sample_lib 1736937000000000) = Some (Naive 1736937000000000)"
    by (simp add: sample_lib_def)
  have r6: "verify_session_token sample_lib sample_env 1736929800000000 ''a@x.com''
         (create_session_token sample_lib sample_env 1736937000000000 ''a@x.com'')"
    using verify_fails_closed [where lib = sample_lib and env = sample_env and now = 1736929800000000
        and email = "''a@x.com''" and ?t0.0 = 1736937000000000,
        THEN c(2), THEN c(2), THEN c(2), THEN c(2), THEN c(2), THEN c(2), THEN c(2), THEN c(2), THEN c(2)] rt th
    by simp
  show ?thesis using r1 r2 r3 r4 r5 r6 by simp
qed

text \<open>
  Claim C10. A credential issued for an email at the clock reading \<open>t0\<close> verifies for the
  same email, under the same secret and configuration, at every clock reading \<open>now\<close> at
  which no more than the timeout has elapsed. The library functions are used through
  their contract: \<^verbatim>\<open>fromisoformat\<close> reads back what \<^verbatim>\<open>isoformat\<close> wrote, and the configured
  timeout is one a \<^verbatim>\<open>timedelta\<close> can hold (the default of 24 hours is).
\<close>

theorem issue_then_verify:
  assumes "fromisoformat lib (isoformat lib t0) = Some (Naive t0)"
    and "- 23999999976 \<le> timeout_hours env" and "timeout_hours env \<le> 23999999999"
    and "now - t0 \<le> timeout_hours env * 3600000000"
  shows "verify_session_token lib env now email (create_session_token lib env t0 email)"
  using assms
  by (simp add: create_shape verify_session_token_def verify_body_split [OF signature_no_colon]
      timedelta_hours_def compare_digest_def signature_ascii)

text \<open>Witness for C10: issued at the sample instant and verified one hour later.\<close>

theorem issue_then_verify_witness:
  "verify_session_token sample_lib sample_env 1736940600000000 ''a@x.com''
     (create_session_token sample_lib sample_env 1736937000000000 ''a@x.com'')"
proof -
  have th: "timeout_hours sample_env = 24" by (simp add: timeout_hours_def sample_env_def)
  have rt: "fromisoformat sample_lib (isoformat sample_lib 1736937000000000) = Some (Naive 1736937000000000)"
    by (simp add: sample_lib_def)
  have lo: "- 23999999976 \<le> timeout_hours sample_env" by (simp add: th)
  have hi: "timeout_hours sample_env \<le> 23999999999" by (simp add: th)
  have fresh: "1736940600000000 - 1736937000000000 \<le> timeout_hours sample_env * 3600000000"
    by (simp add: th)
  show ?thesis by (rule issue_then_verify [OF rt lo hi fresh])
qed






lemma fixed_digest_library_exists:
  "\<exists>lib :: pylib. (\<forall>key msg. length (hmac_sha256 lib key msg) = 32)
        \<and> fromisoformat lib (isoformat lib 0) = Some (Naive 0)"
proof -
  let ?lib = "\<lparr>hmac_sha256 = (\<lambda>key msg. replicate 32 (0 :: byte)), isoformat = (\<lambda>t. []),
               fromisoformat = (\<lambda>s. Some (Naive 0))\<rparr> :: pylib"
  have "(\<forall>key msg. length (hmac_sha256 ?lib key msg) = 32)
        \<and> fromisoformat ?lib (isoformat ?lib 0) = Some (Naive 0)"
    by simp
  then show ?thesis by (intro exI [of _ ?lib])
qed




section \<open>Properties of the preference learning engine\<close>

lemma length_last_n: "length (last_n n xs) \<le> n"
  by (simp add: last_n_def)

lemma last_n_keeps_last: "0 < n \<Longrightarrow> x \<in> set (last_n n (xs @ [x]))"
  by (simp add: last_n_def)

lemma list_set_length:
  assumes "list_set_ok f"
  shows "length (f xs) \<le> length xs"
proof -
  have d: "distinct (f xs)" and s: "set (f xs) = set xs"
    using assms by (simp_all add: list_set_ok_def)
  have "length (f xs) = card (set xs)"
    using distinct_card [OF d] s by simp
  also have "\<dots> \<le> length xs" by (rule card_length)
  finally show ?thesis .
qed

lemma list_set_capped:
  assumes "list_set_ok f"
  shows "length (f (last_n n xs)) \<le> n"
  using list_set_length [OF assms, of "last_n n xs"] length_last_n [of n xs] by linarith

lemma set_add_highlights: "set (add_highlights hs cur) = set cur \<union> set hs"
  unfolding add_highlights_def by (induction hs arbitrary: cur) auto

lemma add_highlights_Nil: "add_highlights [] cur = cur"
  by (simp add: add_highlights_def)

lemma add_highlights_fresh:
  assumes "distinct hs" and "set hs \<inter> set cur = {}"
  shows "add_highlights hs cur = cur @ hs"
  using assms unfolding add_highlights_def
  by (induction hs arbitrary: cur) auto

lemma update_history:
  "job_application_history (fst (update_user_preferences_with_session_data f st now sid email hs orig ed jd))
     = last_n 20 (job_application_history (load_user_preferences st now email) @ [new_job now sid hs jd])"
  by (simp add: update_user_preferences_with_session_data_def save_user_preferences_def new_job_def Let_def)


lemma update_highlights:
  "preferred_highlights (fst (update_user_preferences_with_session_data f st now sid email hs orig ed jd))
     = add_highlights hs (preferred_highlights (load_user_preferences st now email))"
  by (simp add: update_user_preferences_with_session_data_def save_user_preferences_def Let_def
      add_highlights_Nil)

lemma update_edit_patterns:
  "edit_patterns (fst (update_user_preferences_with_session_data f st now sid email hs orig ed jd))
     = (if edits_analysed orig ed
        then (edit_patterns (load_user_preferences st now email))
               \<lparr>commonly_removed_words :=
                  f (last_n 50 (commonly_removed_words (edit_patterns (load_user_preferences st now email))
                                @ removals (analyze_user_edits orig ed))),
                commonly_added_phrases :=
                  f (last_n 50 (commonly_added_phrases (edit_patterns (load_user_preferences st now email))
                                @ additions (analyze_user_edits orig ed)))\<rparr>
        else edit_patterns (load_user_preferences st now email))"
  by (simp add: update_user_preferences_with_session_data_def save_user_preferences_def Let_def
      edits_analysed_def)

lemma update_state:
  "snd (update_user_preferences_with_session_data f st now sid email hs orig ed jd)
     = (if pref_writable st
        then st\<lparr>pref_files := (pref_files st)(preferences_file email :=
                  Doc (fst (update_user_preferences_with_session_data f st now sid email hs orig ed jd)))\<rparr>
        else st)"
  by (simp add: update_user_preferences_with_session_data_def save_user_preferences_def Let_def)

lemma load_after_update:
  assumes "pref_writable st"
  shows "load_user_preferences (snd (update_user_preferences_with_session_data f st now sid email hs orig ed jd)) t email
           = fst (update_user_preferences_with_session_data f st now sid email hs orig ed jd)"
  using assms by (simp add: update_state load_user_preferences_def)

lemma load_edit_patterns_time:
  "edit_patterns (load_user_preferences st t email) = edit_patterns (load_user_preferences st t' email)"
  by (simp add: load_user_preferences_def default_preferences_def split: json_file.splits)

lemma merge_one_writable: "pref_writable (snd (merge_one f st email x)) = pref_writable st"
  by (simp add: merge_one_def update_state)

lemma merge_one_edit_caps:
  assumes "list_set_ok f"
    and "length (commonly_removed_words (edit_patterns (load_user_preferences st t email))) \<le> 50"
    and "length (commonly_added_phrases (edit_patterns (load_user_preferences st t email))) \<le> 50"
  shows "length (commonly_removed_words (edit_patterns (fst (merge_one f st email x)))) \<le> 50
       \<and> length (commonly_added_phrases (edit_patterns (fst (merge_one f st email x)))) \<le> 50"
proof -
  have e: "edit_patterns (load_user_preferences st (at_time x) email) = edit_patterns (load_user_preferences st t email)"
    by (rule load_edit_patterns_time)
  show ?thesis
    using assms(2,3) list_set_capped [OF assms(1)]
    by (simp add: merge_one_def update_edit_patterns e)
qed

lemma merge_one_stored:
  "load_user_preferences (snd (merge_one f st email x)) t email =
     (if pref_writable st then fst (merge_one f st email x) else load_user_preferences st t email)"
  by (simp add: merge_one_def update_state load_user_preferences_def)

lemma merge_all_edit_caps:
  assumes "list_set_ok f"
    and "length (commonly_removed_words (edit_patterns (load_user_preferences st t email))) \<le> 50"
    and "length (commonly_added_phrases (edit_patterns (load_user_preferences st t email))) \<le> 50"
  shows "length (commonly_removed_words (edit_patterns (load_user_preferences (merge_all f st email xs) t email))) \<le> 50
       \<and> length (commonly_added_phrases (edit_patterns (load_user_preferences (merge_all f st email xs) t email))) \<le> 50"
  using assms(2,3)
proof (induction xs arbitrary: st)
  case Nil
  then show ?case by simp
next
  case (Cons x xs)
  let ?st = "snd (merge_one f st email x)"
  have "length (commonly_removed_words (edit_patterns (load_user_preferences ?st t email))) \<le> 50
      \<and> length (commonly_added_phrases (edit_patterns (load_user_preferences ?st t email))) \<le> 50"
    using merge_one_edit_caps [OF assms(1) Cons.prems] Cons.prems
    by (simp add: merge_one_stored)
  then show ?case using Cons.IH [of ?st] by simp
qed

lemma merge_all_history_cap:
  assumes "pref_writable st" and "xs \<noteq> []"
  shows "length (job_application_history (load_user_preferences (merge_all f st email xs) t email)) \<le> 20"
  using assms
proof (induction xs arbitrary: st)
  case Nil
  then show ?case by simp
next
  case (Cons x xs)
  let ?st = "snd (merge_one f st email x)"
  have w: "pref_writable ?st" using Cons.prems(1) by (simp add: merge_one_writable)
  show ?case
  proof (cases "xs = []")
    case True
    have "load_user_preferences ?st t email = fst (merge_one f st email x)"
      using Cons.prems(1) by (simp add: merge_one_stored)
    moreover have "length (job_application_history (fst (merge_one f st email x))) \<le> 20"
      by (simp add: merge_one_def update_history length_last_n)
    ultimately show ?thesis using True by simp
  next
    case False
    from Cons.IH [OF w False] show ?thesis by simp
  qed
qed

lemma length_last_n_eq: "length (last_n n xs) = min n (length xs)"
  by (simp add: last_n_def)

lemma distinct_add_highlights: "distinct cur \<Longrightarrow> distinct (add_highlights hs cur)"
  unfolding add_highlights_def by (induction hs arbitrary: cur) simp_all

lemma load_highlights_time:
  "preferred_highlights (load_user_preferences st t email) = preferred_highlights (load_user_preferences st t' email)"
  by (simp add: load_user_preferences_def default_preferences_def split: json_file.splits)

lemma load_history_time:
  "job_application_history (load_user_preferences st t email) = job_application_history (load_user_preferences st t' email)"
  by (simp add: load_user_preferences_def default_preferences_def split: json_file.splits)

lemma merge_one_highlights_distinct:
  assumes "distinct (preferred_highlights (load_user_preferences st t email))"
  shows "distinct (preferred_highlights (fst (merge_one f st email x)))"
proof -
  have "distinct (preferred_highlights (load_user_preferences st (at_time x) email))"
    using assms load_highlights_time [of st "at_time x" email t] by simp
  then show ?thesis
    by (simp add: merge_one_def update_highlights distinct_add_highlights)
qed

lemma merge_all_highlights_distinct:
  assumes "distinct (preferred_highlights (load_user_preferences st t email))"
  shows "distinct (preferred_highlights (load_user_preferences (merge_all f st email xs) t email))"
  using assms
proof (induction xs arbitrary: st)
  case Nil
  then show ?case by simp
next
  case (Cons x xs)
  let ?st = "snd (merge_one f st email x)"
  have "distinct (preferred_highlights (load_user_preferences ?st t email))"
    using merge_one_highlights_distinct [OF Cons.prems] Cons.prems by (simp add: merge_one_stored)
  then show ?case using Cons.IH [of ?st] by simp
qed

lemma merge_one_history_length:
  "length (job_application_history (fst (merge_one f st email x)))
     = min 20 (length (job_application_history (load_user_preferences st t email)) + 1)"
proof -
  have "length (job_application_history (fst (merge_one f st email x)))
          = min 20 (length (job_application_history (load_user_preferences st (at_time x) email)) + 1)"
    by (simp add: merge_one_def update_history length_last_n_eq)
  then show ?thesis using load_history_time [of st "at_time x" email t] by simp
qed

lemma merge_all_history_length:
  assumes "pref_writable st" and "xs \<noteq> []"
  shows "length (job_application_history (load_user_preferences (merge_all f st email xs) t email))
           = min 20 (length (job_application_history (load_user_preferences st t email)) + length xs)"
  using assms
proof (induction xs arbitrary: st)
  case Nil
  then show ?case by simp
next
  case (Cons x xs)
  let ?st = "snd (merge_one f st email x)"
  have w: "pref_writable ?st" using Cons.prems(1) by (simp add: merge_one_writable)
  have stored: "load_user_preferences ?st t email = fst (merge_one f st email x)"
    using Cons.prems(1) by (simp add: merge_one_stored)
  have one: "length (job_application_history (load_user_preferences ?st t email))
               = min 20 (length (job_application_history (load_user_preferences st t email)) + 1)"
    unfolding stored by (rule merge_one_history_length)
  show ?case
  proof (cases "xs = []")
    case True
    then show ?thesis using one by simp
  next
    case False
    have "length (job_application_history (load_user_preferences (merge_all f ?st email xs) t email))
            = min 20 (length (job_application_history (load_user_preferences ?st t email)) + length xs)"
      by (rule Cons.IH [OF w False])
    then show ?thesis unfolding one by simp
  qed
qed

text \<open>
  Claim C6, amended. Whatever order \<^verbatim>\<open>list(set(...))\<close> produces: if the stored profile of a
  user holds at most 50 removed words and at most 50 added phrases (the default profile
  holds none), it still does after any run of updates for that user; after at least one
  update with a successful write the stored history holds at most 20 entries, exactly
  the smaller of 20 and the number of entries ever added; the profile every update
  returns holds at most 20 history entries, namely the last 20 of the previous history
  followed by the new entry, so the oldest go first. The list of preferred highlights
  has no cap: an update makes it the previous highlights together with the new ones, and
  it stays free of duplicates when it was.
\<close>

theorem caps_after_merges:
  assumes "list_set_ok f"
    and "length (commonly_removed_words (edit_patterns (load_user_preferences st t email))) \<le> 50"
    and "length (commonly_added_phrases (edit_patterns (load_user_preferences st t email))) \<le> 50"
  shows "length (commonly_removed_words (edit_patterns (load_user_preferences (merge_all f st email xs) t email))) \<le> 50
       \<and> length (commonly_added_phrases (edit_patterns (load_user_preferences (merge_all f st email xs) t email))) \<le> 50
       \<and> (pref_writable st \<and> xs \<noteq> [] \<longrightarrow>
            length (job_application_history (load_user_preferences (merge_all f st email xs) t email)) \<le> 20)
       \<and> (pref_writable st \<and> xs \<noteq> [] \<longrightarrow>
            length (job_application_history (load_user_preferences (merge_all f st email xs) t email))
              = min 20 (length (job_application_history (load_user_preferences st t email)) + length xs))
       \<and> length (job_application_history (fst (merge_one f st email x))) \<le> 20
       \<and> job_application_history (fst (merge_one f st email x)) =
            last_n 20 (job_application_history (load_user_preferences st (at_time x) email)
                       @ [new_job (at_time x) (in_session x) (with_highlights x) (for_job x)])
       \<and> set (preferred_highlights (fst (merge_one f st email x))) =
            set (preferred_highlights (load_user_preferences st (at_time x) email)) \<union> set (with_highlights x)
       \<and> (distinct (preferred_highlights (load_user_preferences st t email)) \<longrightarrow>
            distinct (preferred_highlights (fst (merge_one f st email x)))
          \<and> distinct (preferred_highlights (load_user_preferences (merge_all f st email xs) t email)))"
proof -
  note caps = merge_all_edit_caps [OF assms, of xs]
  have h1: "pref_writable st \<and> xs \<noteq> [] \<longrightarrow>
            length (job_application_history (load_user_preferences (merge_all f st email xs) t email)) \<le> 20"
    using merge_all_history_cap by blast
  have h1': "pref_writable st \<and> xs \<noteq> [] \<longrightarrow>
            length (job_application_history (load_user_preferences (merge_all f st email xs) t email))
              = min 20 (length (job_application_history (load_user_preferences st t email)) + length xs)"
    using merge_all_history_length by blast
  have h2: "job_application_history (fst (merge_one f st email x)) =
            last_n 20 (job_application_history (load_user_preferences st (at_time x) email)
                       @ [new_job (at_time x) (in_session x) (with_highlights x) (for_job x)])"
    by (simp add: merge_one_def update_history)
  have h3: "length (job_application_history (fst (merge_one f st email x))) \<le> 20"
    unfolding h2 by (rule length_last_n)
  have h4: "set (preferred_highlights (fst (merge_one f st email x))) =
            set (preferred_highlights (load_user_preferences st (at_time x) email)) \<union> set (with_highlights x)"
    by (simp add: merge_one_def update_highlights set_add_highlights)
  have h5: "distinct (preferred_highlights (load_user_preferences st t email)) \<longrightarrow>
            distinct (preferred_highlights (fst (merge_one f st email x)))
          \<and> distinct (preferred_highlights (load_user_preferences (merge_all f st email xs) t email))"
    using merge_one_highlights_distinct merge_all_highlights_distinct by blast
  show ?thesis using caps h1 h1' h2 h3 h4 h5 by blast
qed

lemma remdups_list_set_ok: "list_set_ok remdups"
  by (simp add: list_set_ok_def)

lemma no_profiles_default:
  "load_user_preferences no_profiles t email = default_preferences email t"
  by (simp add: load_user_preferences_def no_profiles_def)

lemma many_highlights_distinct: "distinct many_highlights"
  by (simp add: many_highlights_def distinct_map inj_on_def)

lemma many_highlights_length: "length many_highlights = 51"
  by (simp add: many_highlights_def)

text \<open>
  Claim C6, as stated, fails for the preferred highlights: one update of a new profile
  with 51 distinct highlights leaves 51 entries in \<^verbatim>\<open>preferred_highlights\<close>.
\<close>

theorem highlights_exceed_cap_counterexample:
  "length (preferred_highlights (fst (merge_one remdups no_profiles ''a@x.com'' highlight_session))) = 51"
proof -
  have "preferred_highlights (fst (merge_one remdups no_profiles ''a@x.com'' highlight_session))
          = add_highlights many_highlights []"
    by (simp add: merge_one_def update_highlights no_profiles_default default_preferences_def
        highlight_session_def)
  also have "\<dots> = many_highlights"
    using add_highlights_fresh [OF many_highlights_distinct, of "[]"] by simp
  finally show ?thesis by (simp add: many_highlights_length)
qed

lemma long_removals:
  "length (remdups (last_n 50 (removals (analyze_user_edits long_original ''keep'')))) = 50"
  by code_simp

lemma long_highlights: "add_highlights [''Python'', ''Python''] [] = [''Python'']"
  by (simp add: add_highlights_def)

text \<open>
  Witness for C6, on a store without profiles. One update that deletes 64 distinct words
  and names the same highlight twice leaves exactly 50 removed words and one highlight;
  21 such updates in a row leave at most 50 removed words and exactly 20 history entries.
\<close>

theorem caps_after_merges_witness:
  "length (commonly_removed_words (edit_patterns
      (load_user_preferences (merge_all remdups no_profiles ''a@x.com'' [long_edit_session]) ''t'' ''a@x.com''))) = 50
   \<and> distinct (preferred_highlights (fst (merge_one remdups no_profiles ''a@x.com'' long_edit_session)))
   \<and> length (commonly_removed_words (edit_patterns
      (load_user_preferences (merge_all remdups no_profiles ''a@x.com'' (replicate 21 long_edit_session)) ''t'' ''a@x.com''))) \<le> 50
   \<and> length (commonly_added_phrases (edit_patterns
      (load_user_preferences (merge_all remdups no_profiles ''a@x.com'' (replicate 21 long_edit_session)) ''t'' ''a@x.com''))) \<le> 50
   \<and> length (job_application_history
      (load_user_preferences (merge_all remdups no_profiles ''a@x.com'' (replicate 21 long_edit_session)) ''t'' ''a@x.com'')) = 20
   \<and> length (job_application_history (fst (merge_one remdups no_profiles ''a@x.com'' long_edit_session))) \<le> 20"
proof -
  have c1: "length (commonly_removed_words (edit_patterns (load_user_preferences no_profiles ''t'' ''a@x.com''))) \<le> 50"
    by (simp add: no_profiles_default default_preferences_def)
  have c2: "length (commonly_added_phrases (edit_patterns (load_user_preferences no_profiles ''t'' ''a@x.com''))) \<le> 50"
    by (simp add: no_profiles_default default_preferences_def)
  have w: "pref_writable no_profiles \<and> replicate 21 long_edit_session \<noteq> []" by (simp add: no_profiles_def)
  have d: "distinct (preferred_highlights (load_user_preferences no_profiles ''t'' ''a@x.com''))"
    by (simp add: no_profiles_default default_preferences_def)
  have h0: "length (job_application_history (load_user_preferences no_profiles ''t'' ''a@x.com'')) = 0"
    by (simp add: no_profiles_default default_preferences_def)
  have an: "edits_analysed long_original ''keep''"
    by code_simp
  have one: "load_user_preferences (merge_all remdups no_profiles ''a@x.com'' [long_edit_session]) ''t'' ''a@x.com''
               = fst (merge_one remdups no_profiles ''a@x.com'' long_edit_session)"
    by (simp add: merge_one_stored no_profiles_def)
  have r50: "length (commonly_removed_words (edit_patterns
      (load_user_preferences (merge_all remdups no_profiles ''a@x.com'' [long_edit_session]) ''t'' ''a@x.com''))) = 50"
    unfolding one
    by (simp add: merge_one_def long_edit_session_def update_edit_patterns an no_profiles_default
        default_preferences_def long_removals)
  note T = caps_after_merges [OF remdups_list_set_ok c1 c2, of "replicate 21 long_edit_session" long_edit_session]
  have t1: "length (commonly_removed_words (edit_patterns
      (load_user_preferences (merge_all remdups no_profiles ''a@x.com'' (replicate 21 long_edit_session)) ''t'' ''a@x.com''))) \<le> 50"
    by (rule T [THEN conjunct1])
  have t2: "length (commonly_added_phrases (edit_patterns
      (load_user_preferences (merge_all remdups no_profiles ''a@x.com'' (replicate 21 long_edit_session)) ''t'' ''a@x.com''))) \<le> 50"
    by (rule T [THEN conjunct2, THEN conjunct1])
  have "length (job_application_history
      (load_user_preferences (merge_all remdups no_profiles ''a@x.com'' (replicate 21 long_edit_session)) ''t'' ''a@x.com''))
        = min 20 (length (job_application_history (load_user_preferences no_profiles ''t'' ''a@x.com''))
                  + length (replicate 21 long_edit_session))"
    by (rule T [THEN conjunct2, THEN conjunct2, THEN conjunct2, THEN conjunct1, rule_format, OF w])
  then have t3: "length (job_application_history
      (load_user_preferences (merge_all remdups no_profiles ''a@x.com'' (replicate 21 long_edit_session)) ''t'' ''a@x.com'')) = 20"
    unfolding h0 by simp
  have t4: "length (job_application_history (fst (merge_one remdups no_profiles ''a@x.com'' long_edit_session))) \<le> 20"
    by (rule T [THEN conjunct2, THEN conjunct2, THEN conjunct2, THEN conjunct2, THEN conjunct1])
  have "distinct (preferred_highlights (fst (merge_one remdups no_profiles ''a@x.com'' long_edit_session)))
      \<and> distinct (preferred_highlights
          (load_user_preferences (merge_all remdups no_profiles ''a@x.com'' (replicate 21 long_edit_session)) ''t'' ''a@x.com''))"
    by (rule T [THEN conjunct2, THEN conjunct2, THEN conjunct2, THEN conjunct2, THEN conjunct2, THEN conjunct2,
          THEN conjunct2, rule_format, OF d])
  then have t5: "distinct (preferred_highlights (fst (merge_one remdups no_profiles ''a@x.com'' long_edit_session)))"
    by (rule conjunct1)
  show ?thesis
    by (intro conjI) (rule r50, rule t5, rule t1, rule t2, rule t3, rule t4)
qed





lemma diff_replace: "analyze_user_edits ''a b c'' ''a x c''
    = \<lparr>removals = [], additions = [], replacements = [(''b'', ''x'')]\<rparr>"
  by code_simp

lemma diff_delete: "analyze_user_edits ''a b c'' ''a c''
    = \<lparr>removals = [''b''], additions = [], replacements = []\<rparr>"
  by code_simp

lemma diff_insert: "analyze_user_edits ''a c'' ''a x c''
    = \<lparr>removals = [], additions = [''x''], replacements = []\<rparr>"
  by code_simp

text \<open>
  Claim C8, as stated, fails: the diff of \<^verbatim>\<open>"a b c"\<close> against \<^verbatim>\<open>"a x c"\<close> is one
  \<^verbatim>\<open>replace\<close> span, which the analysis files under replacements only, so after the merge
  into a new profile the removed words do not contain \<^verbatim>\<open>b\<close> and the added phrases do not
  contain \<^verbatim>\<open>x\<close>.
\<close>

theorem replaced_words_not_recorded_counterexample:
  "''b'' \<notin> set (commonly_removed_words (edit_patterns (fst (update_user_preferences_with_session_data
       remdups no_profiles ''2025-01-15T10:30:00'' ''a_at_x_com'' ''a@x.com'' [] ''a b c'' ''a x c'' ''Engineer''))))
   \<and> ''x'' \<notin> set (commonly_added_phrases (edit_patterns (fst (update_user_preferences_with_session_data
       remdups no_profiles ''2025-01-15T10:30:00'' ''a_at_x_com'' ''a@x.com'' [] ''a b c'' ''a x c'' ''Engineer''))))"
  by (simp add: update_edit_patterns edits_analysed_def diff_replace no_profiles_default
      default_preferences_def last_n_def)

text \<open>
  Claim C8, amended. Diffing \<^verbatim>\<open>"a b c"\<close> against \<^verbatim>\<open>"a x c"\<close> yields the single replacement
  of \<^verbatim>\<open>b\<close> by \<^verbatim>\<open>x\<close> and neither a removal nor an addition, so the merge leaves in the
  removed words and the added phrases what the last 50 stored entries held. A word is
  recorded when it is deleted or inserted outright: diffing \<^verbatim>\<open>"a b c"\<close> against
  \<^verbatim>\<open>"a c"\<close> puts \<^verbatim>\<open>b\<close> into the removed words, and diffing \<^verbatim>\<open>"a c"\<close> against
  \<^verbatim>\<open>"a x c"\<close> puts \<^verbatim>\<open>x\<close> into the added phrases.
\<close>

theorem diff_of_abc:
  "analyze_user_edits ''a b c'' ''a x c''
     = \<lparr>removals = [], additions = [], replacements = [(''b'', ''x'')]\<rparr>
   \<and> (list_set_ok f \<longrightarrow>
        set (commonly_removed_words (edit_patterns (fst (update_user_preferences_with_session_data
              f st now sid email hs ''a b c'' ''a x c'' jd))))
          = set (last_n 50 (commonly_removed_words (edit_patterns (load_user_preferences st now email))))
      \<and> set (commonly_added_phrases (edit_patterns (fst (update_user_preferences_with_session_data
              f st now sid email hs ''a b c'' ''a x c'' jd))))
          = set (last_n 50 (commonly_added_phrases (edit_patterns (load_user_preferences st now email))))
      \<and> ''b'' \<in> set (commonly_removed_words (edit_patterns (fst (update_user_preferences_with_session_data
              f st now sid email hs ''a b c'' ''a c'' jd))))
      \<and> ''x'' \<in> set (commonly_added_phrases (edit_patterns (fst (update_user_preferences_with_session_data
              f st now sid email hs ''a c'' ''a x c'' jd)))))"
proof (intro conjI impI)
  show "analyze_user_edits ''a b c'' ''a x c''
     = \<lparr>removals = [], additions = [], replacements = [(''b'', ''x'')]\<rparr>"
    by (rule diff_replace)
next
  assume ok: "list_set_ok f"
  then have s: "\<And>xs. set (f xs) = set xs" by (simp add: list_set_ok_def)
  have e1: "edits_analysed ''a b c'' ''a x c''" by (simp add: edits_analysed_def)
  have e2: "edits_analysed ''a b c'' ''a c''" by (simp add: edits_analysed_def)
  have e3: "edits_analysed ''a c'' ''a x c''" by (simp add: edits_analysed_def)
  show "set (commonly_removed_words (edit_patterns (fst (update_user_preferences_with_session_data
              f st now sid email hs ''a b c'' ''a x c'' jd))))
          = set (last_n 50 (commonly_removed_words (edit_patterns (load_user_preferences st now email))))"
    by (simp add: update_edit_patterns e1 diff_replace s)
  show "set (commonly_added_phrases (edit_patterns (fst (update_user_preferences_with_session_data
              f st now sid email hs ''a b c'' ''a x c'' jd))))
          = set (last_n 50 (commonly_added_phrases (edit_patterns (load_user_preferences st now email))))"
    by (simp add: update_edit_patterns e1 diff_replace s)
  have b: "''b'' \<in> set (last_n 50 (commonly_removed_words (edit_patterns (load_user_preferences st now email)) @ [''b'']))"
    by (rule last_n_keeps_last) simp
  show "''b'' \<in> set (commonly_removed_words (edit_patterns (fst (update_user_preferences_with_session_data
              f st now sid email hs ''a b c'' ''a c'' jd))))"
    using b by (simp add: update_edit_patterns e2 diff_delete s)
  have x: "''x'' \<in> set (last_n 50 (commonly_added_phrases (edit_patterns (load_user_preferences st now email)) @ [''x'']))"
    by (rule last_n_keeps_last) simp
  show "''x'' \<in> set (commonly_added_phrases (edit_patterns (fst (update_user_preferences_with_session_data
              f st now sid email hs ''a c'' ''a x c'' jd))))"
    using x by (simp add: update_edit_patterns e3 diff_insert s)
qed

text \<open>
  Witness for C8, on a store without profiles.
\<close>

theorem diff_of_abc_witness:
  "''b'' \<in> set (commonly_removed_words (edit_patterns (fst (update_user_preferences_with_session_data
       remdups no_profiles ''2025-01-15T10:30:00'' ''a_at_x_com'' ''a@x.com'' [] ''a b c'' ''a c'' ''Engineer''))))
   \<and> ''x'' \<in> set (commonly_added_phrases (edit_patterns (fst (update_user_preferences_with_session_data
       remdups no_profiles ''2025-01-15T10:30:00'' ''a_at_x_com'' ''a@x.com'' [] ''a c'' ''a x c'' ''Engineer''))))
   \<and> commonly_removed_words (edit_patterns (fst (update_user_preferences_with_session_data
       remdups no_profiles ''2025-01-15T10:30:00'' ''a_at_x_com'' ''a@x.com'' [] ''a b c'' ''a x c'' ''Engineer''))) = []"
proof -
  have d: "commonly_removed_words (edit_patterns (load_user_preferences no_profiles ''2025-01-15T10:30:00'' ''a@x.com'')) = []"
    by (simp add: no_profiles_default default_preferences_def)
  have l: "last_n 50 ([] :: string list) = []" by (simp add: last_n_def)
  show ?thesis
    using diff_of_abc [of remdups no_profiles "''2025-01-15T10:30:00''" "''a_at_x_com''" "''a@x.com''" "[]" "''Engineer''"]
      remdups_list_set_ok d l
    by simp
qed

end
